theory Spec2Isabelle
  imports Main "HOL-Library.Multiset"
begin

unbundle bit_operations_syntax

section \<open>The MaxMatching object of src/MaxMatching.py\<close>

text \<open>
  The Python class keeps all its data in member variables that every method mutates.
  The record below has one field per member variable. Vertices, labels and edge
  numbers are Python integers, hence \<open>int\<close>. \<open>outerVertices\<close> is a Python set; it is
  kept as the list of its members in insertion order, and an element is appended only
  when it is not yet a member, so the list never holds duplicates. The two loops that
  iterate over the set (in \<open>stopTheSearch\<close> and at step L5) treat each member on its
  own, so the order of iteration is immaterial.
\<close>

record MaxMatching =
  V :: int
  VPlusOne :: int
  END :: "int list"
  graph :: "int list list"
  outerEdges :: "(int \<times> int) list"
  outerVertices :: "int list"
  outerIdx :: nat
  LABEL :: "int list"
  MATE :: "int list"
  FIRST :: "int list"

text \<open>
  A method either returns, or raises a Python exception. The loops of \<open>L\<close> and \<open>E\<close>
  are \<open>while True\<close> loops; they are given fuel, and \<open>OutOfFuel\<close> says that the fuel
  did not suffice (nothing is known about the run then). The recursion of \<open>R\<close> is
  limited as in Python by a recursion limit, beyond which \<open>RecursionError\<close> is raised.
  The object is mutated in place, so the state at the moment of an exception is part
  of the result.
\<close>

datatype py_error = IndexError | TypeError | RecursionError

datatype 'a outcome = Return 'a | Raise py_error | OutOfFuel

type_synonym 'a prog = "MaxMatching \<Rightarrow> 'a outcome \<times> MaxMatching"

definition return :: "'a \<Rightarrow> 'a prog" where
  "return a = (\<lambda>s. (Return a, s))"

definition raise :: "py_error \<Rightarrow> 'a prog" where
  "raise e = (\<lambda>s. (Raise e, s))"

definition bind_prog :: "'a prog \<Rightarrow> ('a \<Rightarrow> 'b prog) \<Rightarrow> 'b prog" where
  "bind_prog m f = (\<lambda>s. case m s of
       (Return a, s') \<Rightarrow> f a s'
     | (Raise e, s') \<Rightarrow> (Raise e, s')
     | (OutOfFuel, s') \<Rightarrow> (OutOfFuel, s'))"

fun for_each :: "'a list \<Rightarrow> ('a \<Rightarrow> unit prog) \<Rightarrow> unit prog" where
  "for_each [] f = return ()"
| "for_each (x # xs) f = bind_prog (f x) (\<lambda>_. for_each xs f)"

subsection \<open>Python list indexing\<close>

text \<open>
  \<open>xs[i]\<close> accepts \<open>-len(xs) \<le> i < len(xs)\<close>; a negative index counts from the end.
  Every other index raises IndexError.
\<close>

definition py_index :: "'a list \<Rightarrow> int \<Rightarrow> nat option" where
  "py_index xs i =
     (let n = int (length xs)
      in if 0 \<le> i \<and> i < n then Some (nat i)
         else if - n \<le> i \<and> i < 0 then Some (nat (n + i))
         else None)"

definition getitem :: "(MaxMatching \<Rightarrow> 'a list) \<Rightarrow> int \<Rightarrow> 'a prog" where
  "getitem fld i = (\<lambda>s. case py_index (fld s) i of
       None \<Rightarrow> (Raise IndexError, s)
     | Some k \<Rightarrow> (Return (fld s ! k), s))"

definition set_LABEL :: "int \<Rightarrow> int \<Rightarrow> unit prog" where
  "set_LABEL i x = (\<lambda>s. case py_index (LABEL s) i of
       None \<Rightarrow> (Raise IndexError, s)
     | Some k \<Rightarrow> (Return (), s\<lparr>LABEL := (LABEL s)[k := x]\<rparr>))"

definition set_MATE :: "int \<Rightarrow> int \<Rightarrow> unit prog" where
  "set_MATE i x = (\<lambda>s. case py_index (MATE s) i of
       None \<Rightarrow> (Raise IndexError, s)
     | Some k \<Rightarrow> (Return (), s\<lparr>MATE := (MATE s)[k := x]\<rparr>))"

definition set_FIRST :: "int \<Rightarrow> int \<Rightarrow> unit prog" where
  "set_FIRST i x = (\<lambda>s. case py_index (FIRST s) i of
       None \<Rightarrow> (Raise IndexError, s)
     | Some k \<Rightarrow> (Return (), s\<lparr>FIRST := (FIRST s)[k := x]\<rparr>))"

text \<open>\<open>self.graph[v].append(n)\<close>\<close>

definition graph_append :: "int \<Rightarrow> int \<Rightarrow> unit prog" where
  "graph_append v n = (\<lambda>s. case py_index (graph s) v of
       None \<Rightarrow> (Raise IndexError, s)
     | Some k \<Rightarrow> (Return (), s\<lparr>graph := (graph s)[k := graph s ! k @ [n]]\<rparr>))"

subsection \<open>Construction and the edge store\<close>

definition init :: "int \<Rightarrow> MaxMatching" where
  "init v =
     \<lparr> V = v, VPlusOne = v + 1, END = [],
       graph = replicate (nat (v + 1)) [],
       outerEdges = [], outerVertices = [], outerIdx = 0,
       LABEL = replicate (nat (v + 1)) (- 1),
       MATE = replicate (nat (v + 1)) 0,
       FIRST = replicate (nat (v + 1)) 0 \<rparr>"

definition addEdge :: "int \<Rightarrow> int \<Rightarrow> unit prog" where
  "addEdge v w = (\<lambda>s.
     let n_vw = int (length (END s)) + VPlusOne s;
         s1 = s\<lparr>END := END s @ [v]\<rparr>;
         s2 = s1\<lparr>END := END s1 @ [w]\<rparr>
     in bind_prog (graph_append v n_vw) (\<lambda>_. graph_append w n_vw) s2)"

definition getEdge :: "int \<Rightarrow> (int \<times> int) prog" where
  "getEdge n_vw = (\<lambda>s.
     let n = n_vw - VPlusOne s
     in bind_prog (getitem END n) (\<lambda>a.
        bind_prog (getitem END (n + 1)) (\<lambda>b. return (a, b))) s)"

definition getMatchingSize :: "MaxMatching \<Rightarrow> int" where
  "getMatchingSize s = sum_list (map (\<lambda>x. if x > 0 then 1 else 0) (drop 1 (MATE s)))"

subsection \<open>Labels\<close>

definition setLabel :: "int \<Rightarrow> int \<Rightarrow> unit prog" where
  "setLabel v label =
     bind_prog (set_LABEL v label) (\<lambda>_. (\<lambda>s.
       if label \<ge> 0 \<and> v \<notin> set (outerVertices s)
       then bind_prog (getitem graph v) (\<lambda>es. (\<lambda>s'.
              (Return (), s'\<lparr>outerVertices := outerVertices s' @ [v],
                             outerEdges := outerEdges s' @ map (\<lambda>e. (v, e)) es\<rparr>)))
              s
       else (Return (), s)))"

definition hasVertexLabel :: "int \<Rightarrow> bool prog" where
  "hasVertexLabel v =
     bind_prog (getitem LABEL v) (\<lambda>l.
       if l \<ge> 1 then bind_prog (getitem LABEL v) (\<lambda>l'. (\<lambda>s. (Return (l' \<le> V s), s)))
       else return False)"

text \<open>
  \<open>hasEdgeLabel\<close> compares, once \<open>self.LABEL[v] > self.V\<close> holds, the list
  \<open>self.LABEL\<close> itself with an integer: \<open>self.LABEL <= self.V + WTimesTwo\<close>.
  Python raises TypeError for \<open><=\<close> between a list and an int.
\<close>

definition hasEdgeLabel :: "int \<Rightarrow> bool prog" where
  "hasEdgeLabel v = (\<lambda>s.
     let WTimesTwo = int (length (END s))
     in bind_prog (getitem LABEL v) (\<lambda>l.
          if l > V s then raise TypeError else return False) s)"

definition hasStartLabel :: "int \<Rightarrow> bool prog" where
  "hasStartLabel v = bind_prog (getitem LABEL v) (\<lambda>l. return (l = 0))"

definition chooseAnEdge :: "(int \<times> int) option prog" where
  "chooseAnEdge = (\<lambda>s.
     if length (outerEdges s) > outerIdx s
     then (Return (Some (outerEdges s ! outerIdx s)), s\<lparr>outerIdx := outerIdx s + 1\<rparr>)
     else (Return None, s))"

definition stopTheSearch :: "unit prog" where
  "stopTheSearch =
     bind_prog (set_LABEL 0 (- 1)) (\<lambda>_. (\<lambda>s.
     bind_prog
       (for_each (outerVertices s) (\<lambda>v.
          bind_prog (setLabel v (- 1)) (\<lambda>_.
          bind_prog (getitem MATE v) (\<lambda>m. setLabel m (- 1)))))
       (\<lambda>_. (\<lambda>s'. (Return (), s'\<lparr>outerVertices := [], outerEdges := [], outerIdx := 0\<rparr>)))
       s))"

definition isMatched :: "int \<Rightarrow> bool prog" where
  "isMatched v = bind_prog (getitem MATE v) (\<lambda>m. return (m > 0))"

definition isOuterVertex :: "int \<Rightarrow> bool prog" where
  "isOuterVertex v = (\<lambda>s. (Return (v \<in> set (outerVertices s)), s))"

definition setFlag :: "int \<Rightarrow> int \<Rightarrow> unit prog" where
  "setFlag v n_xy = setLabel v (- n_xy)"

definition isFlagged :: "int \<Rightarrow> int \<Rightarrow> bool prog" where
  "isFlagged v n_xy = bind_prog (getitem LABEL v) (\<lambda>l. return (l = - n_xy))"

subsection \<open>The labelling procedure L\<close>

text \<open>\<open>self.FIRST[self.LABEL[self.MATE[r]]]\<close>, read from the inside out.\<close>

definition next_nonouter :: "int \<Rightarrow> int prog" where
  "next_nonouter r =
     bind_prog (getitem MATE r) (\<lambda>m.
     bind_prog (getitem LABEL m) (\<lambda>l. getitem FIRST l))"

text \<open>Steps L1 and L2: the \<open>while True\<close> loop; it returns \<open>join\<close>.\<close>

fun L_find :: "nat \<Rightarrow> int \<Rightarrow> int \<Rightarrow> int \<Rightarrow> int prog" where
  "L_find 0 n_xy r s = (\<lambda>st. (OutOfFuel, st))"
| "L_find (Suc k) n_xy r s =
     (let (r, s) = (if s \<noteq> 0 then (s, r) else (r, s))
      in bind_prog (next_nonouter r) (\<lambda>r.
         bind_prog (isFlagged r n_xy) (\<lambda>f.
           if f then return r
           else bind_prog (setFlag r n_xy) (\<lambda>_. L_find k n_xy r s))))"

text \<open>Step L4: \<open>while v != join\<close>.\<close>

fun L_label :: "nat \<Rightarrow> int \<Rightarrow> int \<Rightarrow> int \<Rightarrow> unit prog" where
  "L_label 0 n_xy join v = (\<lambda>st. (OutOfFuel, st))"
| "L_label (Suc k) n_xy join v =
     (if v \<noteq> join
      then bind_prog (setLabel v n_xy) (\<lambda>_.
           bind_prog (set_FIRST v join) (\<lambda>_.
           bind_prog (next_nonouter v) (\<lambda>v. L_label k n_xy join v)))
      else return ())"

definition L :: "nat \<Rightarrow> int \<Rightarrow> int \<Rightarrow> int \<Rightarrow> unit prog" where
  "L k x y n_xy =
     bind_prog (getitem FIRST x) (\<lambda>r.
     bind_prog (getitem FIRST y) (\<lambda>s.
       if r = s then return ()
       else
         bind_prog (setFlag r n_xy) (\<lambda>_.
         bind_prog (L_find k n_xy r s) (\<lambda>join.
         bind_prog (getitem FIRST x) (\<lambda>v1.
         bind_prog (getitem FIRST y) (\<lambda>v2.
         bind_prog (for_each [v1, v2] (L_label k n_xy join)) (\<lambda>_. (\<lambda>st.
           for_each (outerVertices st) (\<lambda>i.
             bind_prog (getitem FIRST i) (\<lambda>fi.
             bind_prog (isOuterVertex fi) (\<lambda>b.
               if b then set_FIRST i join else return ()))) st))))))))"

subsection \<open>The rematching procedure R\<close>

fun R :: "nat \<Rightarrow> int \<Rightarrow> int \<Rightarrow> unit prog" where
  "R 0 v w = raise RecursionError"
| "R (Suc d) v w =
     bind_prog (getitem MATE v) (\<lambda>t.
     bind_prog (set_MATE v w) (\<lambda>_.
     bind_prog (getitem MATE t) (\<lambda>mt.
       if mt \<noteq> v then return ()
       else
         bind_prog (hasVertexLabel v) (\<lambda>b.
           if b
           then bind_prog (getitem LABEL v) (\<lambda>l.
                bind_prog (set_MATE t l) (\<lambda>_.
                bind_prog (getitem LABEL v) (\<lambda>l'. R d l' t)))
           else bind_prog (getitem LABEL v) (\<lambda>l.
                bind_prog (getEdge l) (\<lambda>(x, y).
                bind_prog (R d x y) (\<lambda>_. R d y x)))))))"

subsection \<open>The search driver E\<close>

text \<open>
  The \<open>while True\<close> loop of one search (steps E2 to E7) for the root \<open>u\<close>. \<open>lim\<close> is
  the recursion depth left to \<open>R\<close>; the fuel bounds the iterations of this loop and of
  the loops of \<open>L\<close>.
\<close>

fun E_search :: "nat \<Rightarrow> nat \<Rightarrow> int \<Rightarrow> unit prog" where
  "E_search lim 0 u = (\<lambda>st. (OutOfFuel, st))"
| "E_search lim (Suc k) u =
     bind_prog chooseAnEdge (\<lambda>c.
       case c of
         None \<Rightarrow> stopTheSearch
       | Some (x, n_xy) \<Rightarrow>
           bind_prog (getEdge n_xy) (\<lambda>edge.
           let y = x XOR fst edge XOR snd edge
           in bind_prog (isMatched y) (\<lambda>m.
                if \<not> m \<and> y \<noteq> u
                then bind_prog (set_MATE y x) (\<lambda>_.
                     bind_prog (R lim x y) (\<lambda>_. stopTheSearch))
                else
                  bind_prog (isOuterVertex y) (\<lambda>oy.
                    if oy then bind_prog (L k x y n_xy) (\<lambda>_. E_search lim k u)
                    else
                      bind_prog (getitem MATE y) (\<lambda>v.
                      bind_prog (isOuterVertex v) (\<lambda>ov.
                      bind_prog (if \<not> ov
                                 then bind_prog (setLabel v x) (\<lambda>_. set_FIRST v y)
                                 else return ())
                        (\<lambda>_. E_search lim k u)))))))"

definition E_root :: "nat \<Rightarrow> nat \<Rightarrow> int \<Rightarrow> unit prog" where
  "E_root lim k u =
     bind_prog (getitem MATE u) (\<lambda>m.
       if m > 0 then return ()
       else bind_prog (setLabel u 0) (\<lambda>_.
            bind_prog (set_FIRST u 0) (\<lambda>_. E_search lim k u)))"

definition E :: "nat \<Rightarrow> nat \<Rightarrow> unit prog" where
  "E lim k = (\<lambda>s. for_each [1..V s] (E_root lim k) s)"


subsection \<open>Building a graph\<close>

text \<open>
  The caller (see \<open>src/example.py\<close>) creates the object and adds the edges one by
  one. \<open>graph_of v es\<close> is the object after \<open>MaxMatching(v)\<close> and one \<open>addEdge\<close> per
  pair of \<open>es\<close>, in the order of the list.
\<close>

definition add_edges :: "(int \<times> int) list \<Rightarrow> unit prog" where
  "add_edges es = for_each es (\<lambda>(v, w). addEdge v w)"

definition graph_of :: "int \<Rightarrow> (int \<times> int) list \<Rightarrow> MaxMatching" where
  "graph_of v es = snd (add_edges es (init v))"

definition triangle :: "(int \<times> int) list" where
  "triangle = [(1, 2), (2, 3), (1, 3)]"

definition two_edges :: "(int \<times> int) list" where
  "two_edges = [(1, 2), (3, 4)]"

definition five_cycle :: "(int \<times> int) list" where
  "five_cycle = [(1, 2), (2, 3), (3, 4), (4, 5), (5, 1)]"

text \<open>
  Graphs on which the run of \<open>E\<close> is examined below. \<open>stem\<close> has 8 vertices: the
  pairs 1-2, 3-4 and 5-6 are matched by the first searches; the search from 7 then
  reaches the triangle 2, 3, 4 through the edge 7-1, and vertex 6 is joined to 3.
  \<open>stem_reversed\<close> has the same edges, added in the opposite order.
\<close>

definition stem :: "(int \<times> int) list" where
  "stem = [(1, 2), (3, 4), (5, 6), (7, 1), (2, 3), (2, 5), (2, 4), (6, 3), (1, 8)]"

definition stem_reversed :: "(int \<times> int) list" where
  "stem_reversed = [(1, 8), (6, 3), (2, 4), (2, 5), (2, 3), (7, 1), (5, 6), (3, 4), (1, 2)]"

definition ten_a :: "(int \<times> int) list" where
  "ten_a = [(2, 5), (8, 9), (7, 5), (2, 1), (7, 4), (2, 6), (4, 2), (1, 6), (10, 8),
            (4, 3), (6, 8), (2, 3)]"

definition ten_b :: "(int \<times> int) list" where
  "ten_b = [(4, 8), (5, 4), (2, 10), (7, 10), (5, 2), (2, 9), (6, 10), (1, 3), (5, 1),
            (9, 3), (8, 3), (9, 5)]"

definition base_blossom :: "(int \<times> int) list" where
  "base_blossom = [(1, 2), (3, 4), (5, 1), (2, 3), (2, 4)]"

section \<open>Notions used by the theorems\<close>

text \<open>The frame of \<open>R\<close>: the two states agree on every field but \<open>MATE\<close>.\<close>

definition same_but_MATE :: "MaxMatching \<Rightarrow> MaxMatching \<Rightarrow> bool" where
  "same_but_MATE s s' \<longleftrightarrow> s' = s\<lparr>MATE := MATE s'\<rparr>"

definition only_MATE :: "'a prog \<Rightarrow> bool" where
  "only_MATE m \<longleftrightarrow> (\<forall>s. same_but_MATE s (snd (m s)))"

text \<open>
  A result is definite when it does not come from the bounds of the model: it is not
  \<open>OutOfFuel\<close> and, where the recursion limit is varied too (\<open>b\<close>), not a
  RecursionError. \<open>extends b m m'\<close>: wherever \<open>m\<close> ends with a definite result, \<open>m'\<close>
  does exactly the same.
\<close>

definition definite :: "bool \<Rightarrow> 'a outcome \<Rightarrow> bool" where
  "definite b r \<longleftrightarrow> r \<noteq> OutOfFuel \<and> (b \<longrightarrow> r \<noteq> Raise RecursionError)"

definition extends :: "bool \<Rightarrow> 'a prog \<Rightarrow> 'a prog \<Rightarrow> bool" where
  "extends b m m' \<longleftrightarrow> (\<forall>s. definite b (fst (m s)) \<longrightarrow> m' s = m s)"

text \<open>
  What holds of the object throughout a run of \<open>E\<close> on a graph whose vertex ids are
  not negative: no entry of \<open>END\<close>, \<open>MATE\<close>, \<open>FIRST\<close>, of the outer set or of the work
  queue is negative (so that no index wraps around to the end of a list), and every
  position of \<open>LABEL\<close> that holds a non-negative label is a member of the outer set.
\<close>

definition nonneg_inv :: "MaxMatching \<Rightarrow> bool" where
  "nonneg_inv s \<longleftrightarrow>
     (\<forall>x\<in>set (END s). 0 \<le> x) \<and> (\<forall>m\<in>set (MATE s). 0 \<le> m) \<and>
     (\<forall>f\<in>set (FIRST s). 0 \<le> f) \<and> (\<forall>v\<in>set (outerVertices s). 0 \<le> v) \<and>
     (\<forall>p\<in>set (outerEdges s). 0 \<le> fst p)"

definition label_inv :: "MaxMatching \<Rightarrow> bool" where
  "label_inv s \<longleftrightarrow> (\<forall>i<length (LABEL s). 0 \<le> LABEL s ! i \<longrightarrow> int i \<in> set (outerVertices s))"

definition Inv :: "MaxMatching \<Rightarrow> bool" where
  "Inv s \<longleftrightarrow> nonneg_inv s \<and> label_inv s"

text \<open>
  The object between two public operations: the outer set and the work queue are
  empty, the cursor is 0 and every label is negative.
\<close>

definition quiescent :: "MaxMatching \<Rightarrow> bool" where
  "quiescent s \<longleftrightarrow>
     nonneg_inv s \<and> outerVertices s = [] \<and> outerEdges s = [] \<and> outerIdx s = 0 \<and>
     (\<forall>l\<in>set (LABEL s). l < 0)"

text \<open>One pass through L2, after the switch of L1 has chosen \<open>r1\<close> and \<open>s1\<close>.\<close>

definition L_find_body :: "nat \<Rightarrow> int \<Rightarrow> int \<Rightarrow> int \<Rightarrow> int prog" where
  "L_find_body k n r1 s1 =
     bind_prog (next_nonouter r1) (\<lambda>r'.
       bind_prog (isFlagged r' n) (\<lambda>f.
         if f then return r'
         else bind_prog (setFlag r' n) (\<lambda>_. L_find k n r' s1)))"

text \<open>
  \<open>keeps_Inv m P\<close>: when \<open>m\<close> returns from a state that satisfies \<open>Inv\<close>, the new state
  satisfies it and the value returned satisfies \<open>P\<close>. \<open>ends_quiescent m\<close>: when \<open>m\<close>
  returns from such a state, the new state is quiescent.
\<close>

definition keeps_Inv :: "'a prog \<Rightarrow> ('a \<Rightarrow> bool) \<Rightarrow> bool" where
  "keeps_Inv m P \<longleftrightarrow> (\<forall>s a s'. Inv s \<longrightarrow> m s = (Return a, s') \<longrightarrow> Inv s' \<and> P a)"

definition ends_quiescent :: "'a prog \<Rightarrow> bool" where
  "ends_quiescent m \<longleftrightarrow> (\<forall>s a s'. Inv s \<longrightarrow> m s = (Return a, s') \<longrightarrow> quiescent s')"

text \<open>
  The invariant of the specification: a vertex \<open>v\<close> of \<open>1..V\<close> is in the outer set if and
  only if \<open>LABEL[v] >= 0\<close>.
\<close>

definition outer_iff_label :: "MaxMatching \<Rightarrow> bool" where
  "outer_iff_label s \<longleftrightarrow>
     (\<forall>v. 1 \<le> v \<and> v \<le> V s \<longrightarrow>
        (v \<in> set (outerVertices s) \<longleftrightarrow> (\<exists>k. py_index (LABEL s) v = Some k \<and> 0 \<le> LABEL s ! k)))"

text \<open>
  \<open>base_blossom\<close> on 5 vertices: the pairs 1-2 and 3-4 are matched by the first two
  searches; the search from 5 reaches 2 through 1, and the triangle 2, 3, 4 is a
  blossom whose base is vertex 1. That search scans the entries (5,10), (2,6), (2,12)
  of the work queue and then takes (2,14): \<open>before_L\<close> is the object at that moment,
  when \<open>E\<close> is about to call \<open>L(2, 4, 14)\<close>. It is obtained by giving the loop of \<open>E\<close>
  fuel for three passes and taking the next entry of the queue.
\<close>

definition before_L :: MaxMatching where
  "before_L = snd (chooseAnEdge (snd (E 20 3 (graph_of 5 base_blossom))))"

text \<open>
  \<open>flag_on e j t\<close>: position \<open>j\<close> of \<open>LABEL\<close> carries the flag \<open>-e\<close>, and no entry of
  \<open>FIRST\<close> is negative.
\<close>

definition flag_on :: "int \<Rightarrow> int \<Rightarrow> MaxMatching \<Rightarrow> bool" where
  "flag_on e j t \<longleftrightarrow>
     (\<forall>f\<in>set (FIRST t). 0 \<le> f) \<and> 0 \<le> j \<and> nat j < length (LABEL t) \<and> LABEL t ! nat j = - e"

section \<open>What \<open>R\<close> may change\<close>

lemma same_but_MATE_refl: "same_but_MATE s s"
  by (simp add: same_but_MATE_def)

lemma same_but_MATE_trans:
  "same_but_MATE s s' \<Longrightarrow> same_but_MATE s' s'' \<Longrightarrow> same_but_MATE s s''"
  unfolding same_but_MATE_def
  by (metis MaxMatching.update_convs(9) MaxMatching.surjective)

lemma only_MATE_return: "only_MATE (return a)"
  by (simp add: only_MATE_def return_def same_but_MATE_refl)

lemma only_MATE_raise: "only_MATE (raise e)"
  by (simp add: only_MATE_def raise_def same_but_MATE_refl)

lemma only_MATE_getitem: "only_MATE (getitem fld i)"
  by (simp add: only_MATE_def getitem_def same_but_MATE_refl split: option.split)

lemma only_MATE_read: "only_MATE (\<lambda>s. (Return (g s), s))"
  by (simp add: only_MATE_def same_but_MATE_refl)

lemma only_MATE_set_MATE: "only_MATE (set_MATE i x)"
  by (simp add: only_MATE_def set_MATE_def same_but_MATE_def split: option.split)

lemma only_MATE_bind:
  assumes "only_MATE m" and "\<And>a. only_MATE (f a)"
  shows "only_MATE (bind_prog m f)"
  unfolding only_MATE_def
proof
  fix s
  obtain r s' where ms: "m s = (r, s')" by (cases "m s")
  from assms(1) ms have 1: "same_but_MATE s s'"
    by (auto simp: only_MATE_def dest: spec[of _ s])
  show "same_but_MATE s (snd (bind_prog m f s))"
  proof (cases r)
    case (Return a)
    from assms(2)[of a] have "same_but_MATE s' (snd (f a s'))" by (simp add: only_MATE_def)
    with 1 Return ms show ?thesis by (simp add: bind_prog_def same_but_MATE_trans)
  qed (use 1 ms in \<open>simp_all add: bind_prog_def\<close>)
qed

lemma only_MATE_hasVertexLabel: "only_MATE (hasVertexLabel v)"
  unfolding hasVertexLabel_def
  by (auto intro!: only_MATE_bind only_MATE_getitem only_MATE_return only_MATE_read)

lemma only_MATE_getEdge: "only_MATE (getEdge n)"
proof -
  have "only_MATE (bind_prog (getitem END k) (\<lambda>a.
          bind_prog (getitem END (k + 1)) (\<lambda>b. return (a, b))))" for k
    by (intro only_MATE_bind only_MATE_getitem only_MATE_return)
  then show ?thesis
    by (simp add: only_MATE_def getEdge_def Let_def)
qed

lemma only_MATE_R: "only_MATE (R d v w)"
proof (induction d arbitrary: v w)
  case 0
  show ?case by (simp add: only_MATE_raise)
next
  case (Suc d)
  show ?case
    unfolding R.simps
    by (intro only_MATE_bind only_MATE_getitem only_MATE_set_MATE)
       (auto intro!: only_MATE_bind only_MATE_getitem only_MATE_set_MATE only_MATE_return
          only_MATE_hasVertexLabel only_MATE_getEdge Suc.IH)
qed

text \<open>
  C10. \<open>R(v, w)\<close> writes to \<open>MATE\<close> only: whatever the recursion limit, the arguments
  and the state, and however the call ends (return or exception), the arrays
  \<open>LABEL\<close>, \<open>FIRST\<close>, \<open>END\<close>, the adjacency lists, the outer set, the work queue and
  its cursor are the same after the call as before it.
\<close>

theorem R_modifies_only_MATE:
  "LABEL (snd (R d v w s)) = LABEL s \<and>
   FIRST (snd (R d v w s)) = FIRST s \<and>
   END (snd (R d v w s)) = END s \<and>
   graph (snd (R d v w s)) = graph s \<and>
   outerVertices (snd (R d v w s)) = outerVertices s \<and>
   outerEdges (snd (R d v w s)) = outerEdges s \<and>
   outerIdx (snd (R d v w s)) = outerIdx s \<and>
   V (snd (R d v w s)) = V s \<and>
   VPlusOne (snd (R d v w s)) = VPlusOne s"
proof -
  from only_MATE_R[of d v w]
  have "snd (R d v w s) = s\<lparr>MATE := MATE (snd (R d v w s))\<rparr>"
    by (simp add: only_MATE_def same_but_MATE_def)
  then obtain m where "snd (R d v w s) = s\<lparr>MATE := m\<rparr>" ..
  then show ?thesis by simp
qed


section \<open>The bounds of the model do not matter to a definite result\<close>

lemma extends_refl: "extends b m m"
  by (simp add: extends_def)

lemma extends_bind:
  assumes "extends b m m'" and "\<And>a. extends b (f a) (f' a)"
  shows "extends b (bind_prog m f) (bind_prog m' f')"
  unfolding extends_def
proof (intro allI impI)
  fix s
  assume fin: "definite b (fst (bind_prog m f s))"
  obtain r s1 where ms: "m s = (r, s1)" by (cases "m s")
  show "bind_prog m' f' s = bind_prog m f s"
  proof (cases r)
    case (Return a)
    with ms assms(1) have m': "m' s = (Return a, s1)" by (simp add: extends_def definite_def)
    from fin ms Return have "definite b (fst (f a s1))" by (simp add: bind_prog_def)
    with assms(2)[of a] have "f' a s1 = f a s1" by (simp add: extends_def)
    with ms m' Return show ?thesis by (simp add: bind_prog_def)
  next
    case (Raise e)
    from fin ms Raise have "definite b r" by (simp add: bind_prog_def definite_def)
    with ms assms(1) have "m' s = m s" by (simp add: extends_def)
    with ms Raise show ?thesis by (simp add: bind_prog_def)
  next
    case OutOfFuel
    with fin ms show ?thesis by (simp add: bind_prog_def definite_def)
  qed
qed

lemma extends_for_each:
  "(\<And>x. extends b (f x) (f' x)) \<Longrightarrow> extends b (for_each xs f) (for_each xs f')"
  by (induction xs) (auto intro!: extends_bind extends_refl)

lemma extends_R: "d \<le> d' \<Longrightarrow> extends True (R d v w) (R d' v w)"
proof (induction d arbitrary: d' v w)
  case 0
  show ?case by (simp add: extends_def raise_def definite_def)
next
  case (Suc d)
  then obtain e where d': "d' = Suc e" and le: "d \<le> e" by (cases d') auto
  show ?case
    unfolding d' R.simps
    by (intro extends_bind extends_refl)
       (auto intro!: extends_bind extends_refl Suc.IH le)
qed

lemma extends_R_limit: "(if b then d \<le> d' else d = d') \<Longrightarrow> extends b (R d v w) (R d' v w)"
  using extends_R[of d d' v w] by (cases b) (simp_all add: extends_refl)

lemma extends_L_find: "k \<le> k' \<Longrightarrow> extends b (L_find k n r s) (L_find k' n r s)"
proof (induction k arbitrary: k' r s)
  case 0
  show ?case by (simp add: extends_def definite_def)
next
  case (Suc k)
  then obtain j where k': "k' = Suc j" and le: "k \<le> j" by (cases k') auto
  show ?case
    unfolding k' L_find.simps Let_def
    by (auto intro!: extends_bind extends_refl Suc.IH le split: prod.split)
qed

lemma extends_L_label: "k \<le> k' \<Longrightarrow> extends b (L_label k n j v) (L_label k' n j v)"
proof (induction k arbitrary: k' v)
  case 0
  show ?case by (simp add: extends_def definite_def)
next
  case (Suc k)
  then obtain i where k': "k' = Suc i" and le: "k \<le> i" by (cases k') auto
  show ?case
    unfolding k' L_label.simps
    by (auto intro!: extends_bind extends_refl Suc.IH le)
qed

lemma extends_L: "k \<le> k' \<Longrightarrow> extends b (L k x y n) (L k' x y n)"
  unfolding L_def
  by (auto intro!: extends_bind extends_refl extends_L_find extends_L_label extends_for_each)

lemma extends_E_search:
  "(if b then lim \<le> lim' else lim = lim') \<Longrightarrow> k \<le> k' \<Longrightarrow>
     extends b (E_search lim k u) (E_search lim' k' u)"
proof (induction k arbitrary: k' u)
  case 0
  show ?case by (simp add: extends_def definite_def)
next
  case (Suc k)
  then obtain j where k': "k' = Suc j" and le: "k \<le> j" by (cases k') auto
  show ?case
    unfolding k' E_search.simps Let_def
    by (auto intro!: extends_bind extends_refl Suc.IH Suc.prems(1) le extends_R_limit extends_L
          split: option.split prod.split)
qed

lemma extends_E_root:
  "(if b then lim \<le> lim' else lim = lim') \<Longrightarrow> k \<le> k' \<Longrightarrow>
     extends b (E_root lim k u) (E_root lim' k' u)"
  unfolding E_root_def
  by (auto intro!: extends_bind extends_refl extends_E_search)

lemma extends_E:
  assumes "if b then lim \<le> lim' else lim = lim'" and "k \<le> k'"
  shows "extends b (E lim k) (E lim' k')"
  using extends_for_each[of b "E_root lim k" "E_root lim' k'"] extends_E_root[OF assms]
  by (simp add: E_def extends_def)

text \<open>
  A run of \<open>E\<close> that ends with a return or a Python exception other than
  RecursionError ends in the same way under every larger recursion limit and with
  every larger amount of fuel.
\<close>

lemma E_more_fuel:
  assumes "fst (E lim k s) = Return () \<or> fst (E lim k s) = Raise IndexError"
    and "lim \<le> lim'" and "k \<le> k'"
  shows "E lim' k' s = E lim k s"
proof -
  from assms(1) have "definite True (fst (E lim k s))" by (auto simp: definite_def)
  with extends_E[of True lim lim' k k'] assms(2,3) show ?thesis by (simp add: extends_def)
qed

text \<open>A RecursionError under a given recursion limit is raised whatever fuel is added.\<close>

lemma E_more_fuel_same_limit:
  assumes "fst (E lim k s) = Raise RecursionError" and "k \<le> k'"
  shows "E lim k' s = E lim k s"
proof -
  from assms(1) have "definite False (fst (E lim k s))" by (auto simp: definite_def)
  with extends_E[of False lim lim k k'] assms(2) show ?thesis by (simp add: extends_def)
qed

section \<open>The known finite instances\<close>

lemma triangle_run:
  "case E 5 30 (graph_of 3 triangle) of (r, s) \<Rightarrow> r = Return () \<and> getMatchingSize s = 2"
  by code_simp

lemma two_edges_run:
  "case E 5 30 (graph_of 4 two_edges) of (r, s) \<Rightarrow> r = Return () \<and> getMatchingSize s = 4"
  by code_simp

lemma five_cycle_run:
  "case E 5 30 (graph_of 5 five_cycle) of (r, s) \<Rightarrow> r = Return () \<and> getMatchingSize s = 4"
  by code_simp

text \<open>
  C2. With the edges added in the order in which the specification lists them, \<open>E()\<close>
  returns and \<open>getMatchingSize()\<close> is then 2 for the triangle on 3 vertices, 4 for the
  two disjoint edges on 4 vertices and 4 for the cycle on 5 vertices. This holds for
  every recursion limit from 5 on and every amount of fuel from 30 on, so it is a
  statement about the Python run and not about the bounds of the model.
\<close>

theorem known_instances:
  assumes "5 \<le> lim" and "30 \<le> k"
  shows "fst (E lim k (graph_of 3 triangle)) = Return () \<and>
         getMatchingSize (snd (E lim k (graph_of 3 triangle))) = 2 \<and>
         fst (E lim k (graph_of 4 two_edges)) = Return () \<and>
         getMatchingSize (snd (E lim k (graph_of 4 two_edges))) = 4 \<and>
         fst (E lim k (graph_of 5 five_cycle)) = Return () \<and>
         getMatchingSize (snd (E lim k (graph_of 5 five_cycle))) = 4"
proof -
  have a: "fst (E 5 30 (graph_of 3 triangle)) = Return ()"
          "getMatchingSize (snd (E 5 30 (graph_of 3 triangle))) = 2"
    using triangle_run by (simp_all add: case_prod_beta)
  have b: "fst (E 5 30 (graph_of 4 two_edges)) = Return ()"
          "getMatchingSize (snd (E 5 30 (graph_of 4 two_edges))) = 4"
    using two_edges_run by (simp_all add: case_prod_beta)
  have c: "fst (E 5 30 (graph_of 5 five_cycle)) = Return ()"
          "getMatchingSize (snd (E 5 30 (graph_of 5 five_cycle))) = 4"
    using five_cycle_run by (simp_all add: case_prod_beta)
  from a(1) have "E lim k (graph_of 3 triangle) = E 5 30 (graph_of 3 triangle)"
    by (intro E_more_fuel assms) simp
  moreover from b(1) have "E lim k (graph_of 4 two_edges) = E 5 30 (graph_of 4 two_edges)"
    by (intro E_more_fuel assms) simp
  moreover from c(1) have "E lim k (graph_of 5 five_cycle) = E 5 30 (graph_of 5 five_cycle)"
    by (intro E_more_fuel assms) simp
  ultimately show ?thesis using a b c by simp
qed

theorem known_instances_witness:
  "(5::nat) \<le> 1000 \<and> (30::nat) \<le> 1000 \<and>
   fst (E 1000 1000 (graph_of 3 triangle)) = Return () \<and>
   getMatchingSize (snd (E 1000 1000 (graph_of 3 triangle))) = 2 \<and>
   fst (E 1000 1000 (graph_of 4 two_edges)) = Return () \<and>
   getMatchingSize (snd (E 1000 1000 (graph_of 4 two_edges))) = 4 \<and>
   fst (E 1000 1000 (graph_of 5 five_cycle)) = Return () \<and>
   getMatchingSize (snd (E 1000 1000 (graph_of 5 five_cycle))) = 4"
  using known_instances[of 1000 1000] by simp


section \<open>The classification predicate \<open>hasEdgeLabel\<close>\<close>

text \<open>
  C3, as the code behaves. Whenever \<open>LABEL[v]\<close> is greater than \<open>V\<close>, that is, in every
  case in which \<open>hasEdgeLabel(v)\<close> should answer True, the method goes on to compare
  the list \<open>self.LABEL\<close> with an integer and raises TypeError; it never returns True.
\<close>

theorem hasEdgeLabel_raises_TypeError:
  "py_index (LABEL s) v = Some k \<Longrightarrow> V s < LABEL s ! k \<Longrightarrow>
     hasEdgeLabel v s = (Raise TypeError, s)"
  by (simp add: hasEdgeLabel_def bind_prog_def getitem_def raise_def)

lemma triangle_labelled:
  "py_index (LABEL (snd (setLabel 2 8 (graph_of 3 triangle)))) 2 = Some 2 \<and>
   LABEL (snd (setLabel 2 8 (graph_of 3 triangle))) ! 2 = 8 \<and>
   V (snd (setLabel 2 8 (graph_of 3 triangle))) = 3 \<and>
   length (END (snd (setLabel 2 8 (graph_of 3 triangle)))) = 6"
  by code_simp

text \<open>
  The triangle with the edge label 8 on vertex 2, which is the label that \<open>L\<close> writes
  there during the search from vertex 3: 8 lies in the range \<open>V < 8 \<le> V + 2|E| = 9\<close>.
\<close>

theorem hasEdgeLabel_raises_TypeError_witness:
  "py_index (LABEL (snd (setLabel 2 8 (graph_of 3 triangle)))) 2 = Some 2 \<and>
   V (snd (setLabel 2 8 (graph_of 3 triangle)))
     < LABEL (snd (setLabel 2 8 (graph_of 3 triangle))) ! 2 \<and>
   fst (hasEdgeLabel 2 (snd (setLabel 2 8 (graph_of 3 triangle)))) = Raise TypeError"
proof -
  have a: "py_index (LABEL (snd (setLabel 2 8 (graph_of 3 triangle)))) 2 = Some 2"
    using triangle_labelled by simp
  have b: "V (snd (setLabel 2 8 (graph_of 3 triangle)))
             < LABEL (snd (setLabel 2 8 (graph_of 3 triangle))) ! 2"
    using triangle_labelled by simp
  from hasEdgeLabel_raises_TypeError[OF a b] a b show ?thesis by simp
qed

section \<open>\<open>addEdge\<close> and vertices out of range\<close>

lemma addEdge_result:
  "addEdge v w s =
     (let n = int (length (END s)) + VPlusOne s; s2 = s\<lparr>END := END s @ [v, w]\<rparr>
      in case py_index (graph s) v of
           None \<Rightarrow> (Raise IndexError, s2)
         | Some i \<Rightarrow>
             (case py_index (graph s) w of
                None \<Rightarrow> (Raise IndexError, s2\<lparr>graph := (graph s)[i := graph s ! i @ [n]]\<rparr>)
              | Some j \<Rightarrow> (Return (), s2\<lparr>graph := ((graph s)[i := graph s ! i @ [n]])
                                        [j := ((graph s)[i := graph s ! i @ [n]]) ! j @ [n]]\<rparr>)))"
  by (simp add: addEdge_def Let_def bind_prog_def graph_append_def py_index_def split: option.split)

text \<open>
  C4 fails as stated. With \<open>V = 1\<close>: \<open>addEdge(0, 1)\<close> returns although 0 is not in
  \<open>[1, V]\<close>; \<open>addEdge(2, 1)\<close> raises IndexError but has appended to \<open>END\<close> before;
  \<open>addEdge(1, 2)\<close> raises IndexError after it has also extended the adjacency list of
  vertex 1.
\<close>

theorem addEdge_range_counterexample:
  "fst (addEdge 0 1 (init 1)) = Return () \<and> \<not> (1 \<le> (0::int)) \<and>
   fst (addEdge 2 1 (init 1)) = Raise IndexError \<and>
   END (snd (addEdge 2 1 (init 1))) \<noteq> END (init 1) \<and>
   fst (addEdge 1 2 (init 1)) = Raise IndexError \<and>
   graph (snd (addEdge 1 2 (init 1))) \<noteq> graph (init 1)"
  by code_simp

text \<open>
  C4, amended. On an object whose adjacency table has its \<open>V + 1\<close> rows, \<open>addEdge(v, w)\<close>
  succeeds when \<open>v\<close> and \<open>w\<close> are in \<open>[1, V]\<close>; it raises IndexError exactly when \<open>v\<close> or
  \<open>w\<close> is outside \<open>[-(V+1), V]\<close>, the index range of a Python list of \<open>V + 1\<close> rows, and
  otherwise returns; in every case, also when it raises, \<open>v\<close> and \<open>w\<close> have been appended
  to \<open>END\<close>.
\<close>

theorem addEdge_index_range:
  assumes "int (length (graph s)) = V s + 1"
  shows "(1 \<le> v \<and> v \<le> V s \<and> 1 \<le> w \<and> w \<le> V s \<longrightarrow> fst (addEdge v w s) = Return ()) \<and>
         (fst (addEdge v w s) = Raise IndexError \<longleftrightarrow>
            \<not> (- (V s + 1) \<le> v \<and> v \<le> V s \<and> - (V s + 1) \<le> w \<and> w \<le> V s)) \<and>
         (fst (addEdge v w s) = Return () \<or> fst (addEdge v w s) = Raise IndexError) \<and>
         END (snd (addEdge v w s)) = END s @ [v, w]"
  using assms
  by (auto simp: addEdge_result py_index_def Let_def split: option.splits if_splits)

theorem addEdge_index_range_witness:
  "int (length (graph (init 3))) = V (init 3) + 1 \<and>
   fst (addEdge 1 2 (init 3)) = Return () \<and>
   fst (addEdge 4 2 (init 3)) = Raise IndexError \<and>
   END (snd (addEdge 4 2 (init 3))) = [4, 2]"
proof -
  have h: "int (length (graph (init 3))) = V (init 3) + 1" by (simp add: init_def)
  have v: "V (init 3) = 3" "END (init 3) = []" by (simp_all add: init_def)
  from addEdge_index_range[OF h, of 1 2] addEdge_index_range[OF h, of 4 2] h v
  show ?thesis by simp
qed


section \<open>Runs on which \<open>L\<close> finds a wrong join\<close>

text \<open>
  Step L0 of the algorithm flags both \<open>r = FIRST(x)\<close> and \<open>s = FIRST(y)\<close>. The method
  \<open>L\<close> flags \<open>r\<close> only, although its own comment at L1 calls the vertex it switches to
  a flagged vertex. When \<open>s\<close> lies on the path from \<open>x\<close> to the root, the walk from
  \<open>x\<close> passes \<open>s\<close> without recognising it, and \<open>L\<close> either finds a join further up and
  labels vertices that are not in the blossom, or it walks past the root. The runs
  below are evaluated on graphs all of whose edges join two vertices of \<open>[1, V]\<close>.
\<close>

lemma graphs_built:
  "fst (add_edges stem (init 8)) = Return () \<and>
   fst (add_edges stem_reversed (init 8)) = Return () \<and>
   fst (add_edges ten_a (init 10)) = Return () \<and>
   fst (add_edges ten_b (init 10)) = Return () \<and>
   V (graph_of 10 ten_b) = 10"
  by code_simp

lemma stem_run:
  "case E 20 100 (graph_of 8 stem) of (r, s) \<Rightarrow>
     r = Return () \<and> MATE s = [0, 8, 4, 6, 2, 7, 3, 5, 1] \<and> getMatchingSize s = 8"
  by code_simp

lemma stem_reversed_run:
  "case E 20 100 (graph_of 8 stem_reversed) of (r, s) \<Rightarrow>
     r = Return () \<and> getMatchingSize s = 6"
  by code_simp

lemma stem_perm: "mset stem_reversed = mset stem"
  by (simp add: stem_def stem_reversed_def)

lemma ten_a_run:
  "case E 20 100 (graph_of 10 ten_a) of (r, s) \<Rightarrow>
     r = Return () \<and> MATE s = [0, 2, 1, 2, 7, 2, 9, 4, 10, 6, 8]"
  by code_simp

lemma ten_b_run: "fst (E 20 100 (graph_of 10 ten_b)) = Raise RecursionError"
  by code_simp

text \<open>
  C5 on the code. The same nine edges on 8 vertices, added in one order and in the
  opposite order: \<open>E()\<close> returns both times, and \<open>getMatchingSize()\<close> is 8 after the
  first and 6 after the second. (6 is the size of a maximum matching: the vertices 7
  and 8 have the single neighbour 1. The 8 comes with \<open>MATE[7] = 5\<close>, and 7-5 is not an
  edge of the graph.)
\<close>

theorem insertion_order_changes_size:
  assumes "20 \<le> lim" and "100 \<le> k"
  shows "mset stem_reversed = mset stem \<and>
         fst (E lim k (graph_of 8 stem)) = Return () \<and>
         getMatchingSize (snd (E lim k (graph_of 8 stem))) = 8 \<and>
         fst (E lim k (graph_of 8 stem_reversed)) = Return () \<and>
         getMatchingSize (snd (E lim k (graph_of 8 stem_reversed))) = 6 \<and>
         MATE (snd (E lim k (graph_of 8 stem))) ! 7 = 5 \<and>
         (7, 5) \<notin> set stem \<and> (5, 7) \<notin> set stem"
proof -
  have a: "fst (E 20 100 (graph_of 8 stem)) = Return ()"
          "getMatchingSize (snd (E 20 100 (graph_of 8 stem))) = 8"
          "MATE (snd (E 20 100 (graph_of 8 stem))) = [0, 8, 4, 6, 2, 7, 3, 5, 1]"
    using stem_run by (simp_all add: case_prod_beta)
  have b: "fst (E 20 100 (graph_of 8 stem_reversed)) = Return ()"
          "getMatchingSize (snd (E 20 100 (graph_of 8 stem_reversed))) = 6"
    using stem_reversed_run by (simp_all add: case_prod_beta)
  from a(1) have "E lim k (graph_of 8 stem) = E 20 100 (graph_of 8 stem)"
    by (intro E_more_fuel assms) simp
  moreover from b(1)
  have "E lim k (graph_of 8 stem_reversed) = E 20 100 (graph_of 8 stem_reversed)"
    by (intro E_more_fuel assms) simp
  moreover have "(7, 5) \<notin> set stem \<and> (5, 7) \<notin> set stem"
    by (simp add: stem_def)
  ultimately show ?thesis using a b stem_perm by simp
qed

theorem insertion_order_changes_size_witness:
  "(20::nat) \<le> 1000 \<and> (100::nat) \<le> 1000 \<and>
   mset stem_reversed = mset stem \<and>
   getMatchingSize (snd (E 1000 1000 (graph_of 8 stem))) = 8 \<and>
   getMatchingSize (snd (E 1000 1000 (graph_of 8 stem_reversed))) = 6"
  using insertion_order_changes_size[of 1000 1000] by simp

text \<open>
  C1 on the code. On a graph with 10 vertices and 12 edges \<open>E()\<close> returns with
  \<open>MATE[3] = 2\<close> and \<open>MATE[5] = 2\<close> while \<open>MATE[2] = 1\<close>: \<open>MATE[MATE[3]]\<close> is not 3, and
  vertex 2 is the \<open>MATE\<close> value of the three vertices 1, 3 and 5.
\<close>

theorem E_returns_asymmetric_MATE:
  assumes "20 \<le> lim" and "100 \<le> k"
  shows "fst (E lim k (graph_of 10 ten_a)) = Return () \<and>
         MATE (snd (E lim k (graph_of 10 ten_a))) = [0, 2, 1, 2, 7, 2, 9, 4, 10, 6, 8] \<and>
         MATE (snd (E lim k (graph_of 10 ten_a))) ! 3 \<noteq> 0 \<and>
         MATE (snd (E lim k (graph_of 10 ten_a)))
           ! nat (MATE (snd (E lim k (graph_of 10 ten_a))) ! 3) \<noteq> 3 \<and>
         MATE (snd (E lim k (graph_of 10 ten_a))) ! 1 = 2 \<and>
         MATE (snd (E lim k (graph_of 10 ten_a))) ! 3 = 2 \<and>
         MATE (snd (E lim k (graph_of 10 ten_a))) ! 5 = 2"
proof -
  have a: "fst (E 20 100 (graph_of 10 ten_a)) = Return ()"
          "MATE (snd (E 20 100 (graph_of 10 ten_a))) = [0, 2, 1, 2, 7, 2, 9, 4, 10, 6, 8]"
    using ten_a_run by (simp_all add: case_prod_beta)
  from a(1) have "E lim k (graph_of 10 ten_a) = E 20 100 (graph_of 10 ten_a)"
    by (intro E_more_fuel assms) simp
  then show ?thesis using a by simp
qed

theorem E_returns_asymmetric_MATE_witness:
  "(20::nat) \<le> 1000 \<and> (100::nat) \<le> 1000 \<and>
   fst (E 1000 1000 (graph_of 10 ten_a)) = Return () \<and>
   MATE (snd (E 1000 1000 (graph_of 10 ten_a))) = [0, 2, 1, 2, 7, 2, 9, 4, 10, 6, 8]"
  using E_returns_asymmetric_MATE[of 1000 1000] by simp

text \<open>
  C9 on the code. On a graph with \<open>V = 10\<close> vertices and 12 edges the recursion of \<open>R\<close>,
  called by \<open>E\<close> at step E3, is still going on at depth 20, twice the number of
  vertices: with the recursion limit 20 the run ends in a RecursionError, whatever
  fuel the loops are given.
\<close>

theorem R_recursion_exceeds_V:
  assumes "100 \<le> k"
  shows "V (graph_of 10 ten_b) = 10 \<and>
         fst (add_edges ten_b (init 10)) = Return () \<and>
         fst (E 20 k (graph_of 10 ten_b)) = Raise RecursionError"
proof -
  from ten_b_run assms have "E 20 k (graph_of 10 ten_b) = E 20 100 (graph_of 10 ten_b)"
    by (intro E_more_fuel_same_limit)
  with ten_b_run graphs_built show ?thesis by simp
qed

theorem R_recursion_exceeds_V_witness:
  "(100::nat) \<le> 1000 \<and> fst (E 20 1000 (graph_of 10 ten_b)) = Raise RecursionError"
  using R_recursion_exceeds_V[of 1000] by simp


section \<open>The outer set and the sign of the labels\<close>

lemma bind_Return:
  "bind_prog m f s = (Return b, s'') \<longleftrightarrow> (\<exists>a s'. m s = (Return a, s') \<and> f a s' = (Return b, s''))"
  by (auto simp: bind_prog_def split: prod.splits outcome.splits)

lemma return_Return: "return a s = (Return b, s') \<longleftrightarrow> b = a \<and> s' = s"
  by (auto simp: return_def)

lemma raise_Return: "raise e s = (Return b, s') \<longleftrightarrow> False"
  by (simp add: raise_def)

lemma py_index_less: "py_index xs i = Some k \<Longrightarrow> k < length xs"
  by (auto simp: py_index_def Let_def split: if_splits)

lemma py_index_nonneg: "py_index xs i = Some k \<Longrightarrow> 0 \<le> i \<Longrightarrow> k = nat i"
  by (auto simp: py_index_def Let_def split: if_splits)

lemma getitem_Return:
  "getitem fld i s = (Return a, s') \<longleftrightarrow>
     s' = s \<and> (\<exists>k. py_index (fld s) i = Some k \<and> a = fld s ! k)"
  by (auto simp: getitem_def split: option.splits)

lemma getitem_in_set: "getitem fld i s = (Return a, s') \<Longrightarrow> s' = s \<and> a \<in> set (fld s)"
  by (auto simp: getitem_Return dest: py_index_less)

lemma set_LABEL_Return:
  "set_LABEL i x s = (Return u, s') \<longleftrightarrow>
     (\<exists>k. py_index (LABEL s) i = Some k \<and> s' = s\<lparr>LABEL := (LABEL s)[k := x]\<rparr>)"
  by (cases "py_index (LABEL s) i") (auto simp: set_LABEL_def)

lemma set_MATE_Return:
  "set_MATE i x s = (Return u, s') \<longleftrightarrow>
     (\<exists>k. py_index (MATE s) i = Some k \<and> s' = s\<lparr>MATE := (MATE s)[k := x]\<rparr>)"
  by (cases "py_index (MATE s) i") (auto simp: set_MATE_def)

lemma set_FIRST_Return:
  "set_FIRST i x s = (Return u, s') \<longleftrightarrow>
     (\<exists>k. py_index (FIRST s) i = Some k \<and> s' = s\<lparr>FIRST := (FIRST s)[k := x]\<rparr>)"
  by (cases "py_index (FIRST s) i") (auto simp: set_FIRST_def)

lemma setLabel_Return:
  assumes "setLabel v l s = (Return u, s')"
  shows "\<exists>k. py_index (LABEL s) v = Some k \<and>
          (if 0 \<le> l \<and> v \<notin> set (outerVertices s)
           then \<exists>j. s' = s\<lparr>LABEL := (LABEL s)[k := l],
                       outerVertices := outerVertices s @ [v],
                       outerEdges := outerEdges s @ map (\<lambda>e. (v, e)) (graph s ! j)\<rparr>
           else s' = s\<lparr>LABEL := (LABEL s)[k := l]\<rparr>)"
proof -
  from assms obtain s1 where
    1: "set_LABEL v l s = (Return (), s1)" and
    2: "(if 0 \<le> l \<and> v \<notin> set (outerVertices s1)
         then bind_prog (getitem graph v) (\<lambda>es. (\<lambda>s'.
              (Return (), s'\<lparr>outerVertices := outerVertices s' @ [v],
                             outerEdges := outerEdges s' @ map (\<lambda>e. (v, e)) es\<rparr>))) s1
         else (Return (), s1)) = (Return u, s')"
    unfolding setLabel_def bind_Return by auto
  from 1 obtain k where k: "py_index (LABEL s) v = Some k"
    and s1: "s1 = s\<lparr>LABEL := (LABEL s)[k := l]\<rparr>"
    unfolding set_LABEL_Return by auto
  show ?thesis
  proof (cases "0 \<le> l \<and> v \<notin> set (outerVertices s)")
    case True
    with 2 s1 obtain es where "getitem graph v s1 = (Return es, s1)"
      and "s' = s1\<lparr>outerVertices := outerVertices s1 @ [v],
                     outerEdges := outerEdges s1 @ map (\<lambda>e. (v, e)) es\<rparr>"
      by (simp add: bind_Return getitem_Return) blast
    then have "\<exists>j. s' = s\<lparr>LABEL := (LABEL s)[k := l],
                       outerVertices := outerVertices s @ [v],
                       outerEdges := outerEdges s @ map (\<lambda>e. (v, e)) (graph s ! j)\<rparr>"
      by (auto simp: s1 getitem_Return)
    with k True show ?thesis by simp
  next
    case False
    with 2 s1 have "s' = s\<lparr>LABEL := (LABEL s)[k := l]\<rparr>" by simp
    with k show ?thesis by (simp only: False if_False) blast
  qed
qed

lemma in_set_updD: "x \<in> set (xs[k := y]) \<Longrightarrow> x = y \<or> x \<in> set xs"
  using set_update_subset_insert[of xs k y] by auto

lemma set_MATE_Inv: "Inv s \<Longrightarrow> 0 \<le> x \<Longrightarrow> set_MATE i x s = (Return u, s') \<Longrightarrow> Inv s'"
  unfolding set_MATE_Return
  by (clarsimp simp: Inv_def nonneg_inv_def label_inv_def) (auto dest!: in_set_updD)

lemma set_FIRST_Inv: "Inv s \<Longrightarrow> 0 \<le> x \<Longrightarrow> set_FIRST i x s = (Return u, s') \<Longrightarrow> Inv s'"
  unfolding set_FIRST_Return
  by (clarsimp simp: Inv_def nonneg_inv_def label_inv_def) (auto dest!: in_set_updD)

lemma setLabel_Inv:
  assumes "Inv s" and "0 \<le> v" and "setLabel v l s = (Return u, s')"
  shows "Inv s'"
proof -
  from setLabel_Return[OF assms(3)] obtain k where k: "py_index (LABEL s) v = Some k"
    and yes: "0 \<le> l \<and> v \<notin> set (outerVertices s) \<Longrightarrow>
           \<exists>j. s' = s\<lparr>LABEL := (LABEL s)[k := l],
                       outerVertices := outerVertices s @ [v],
                       outerEdges := outerEdges s @ map (\<lambda>e. (v, e)) (graph s ! j)\<rparr>"
    and no: "\<not> (0 \<le> l \<and> v \<notin> set (outerVertices s)) \<Longrightarrow> s' = s\<lparr>LABEL := (LABEL s)[k := l]\<rparr>"
    by (auto split: if_splits)
  from k assms(2) have kv: "k = nat v" by (rule py_index_nonneg)
  from k have kl: "k < length (LABEL s)" by (rule py_index_less)
  show ?thesis
  proof (cases "0 \<le> l \<and> v \<notin> set (outerVertices s)")
    case True
    with yes obtain j where
      s': "s' = s\<lparr>LABEL := (LABEL s)[k := l], outerVertices := outerVertices s @ [v],
                  outerEdges := outerEdges s @ map (\<lambda>e. (v, e)) (graph s ! j)\<rparr>"
      by blast
    from assms(1,2) have "nonneg_inv s'"
      by (auto simp: s' Inv_def nonneg_inv_def)
    moreover from assms(1,2) kv kl have "label_inv s'"
      by (auto simp: s' Inv_def label_inv_def nth_list_update)
    ultimately show ?thesis by (simp add: Inv_def)
  next
    case False
    with no have s': "s' = s\<lparr>LABEL := (LABEL s)[k := l]\<rparr>" by blast
    from assms(1) have "nonneg_inv s'"
      by (auto simp: s' Inv_def nonneg_inv_def)
    moreover from assms(1,2) kv kl False have "label_inv s'"
      by (auto simp: s' Inv_def label_inv_def nth_list_update)
    ultimately show ?thesis by (simp add: Inv_def)
  qed
qed

lemma for_each_preserves:
  assumes "for_each xs f s = (Return u, s')" and "I s"
    and "\<And>x t t'. x \<in> set xs \<Longrightarrow> I t \<Longrightarrow> f x t = (Return (), t') \<Longrightarrow> I t'"
  shows "I s'"
  using assms
proof (induction xs arbitrary: s)
  case Nil
  then show ?case by (simp add: return_Return)
next
  case (Cons x xs)
  from Cons.prems(1) obtain t where 1: "f x s = (Return (), t)"
    and 2: "for_each xs f t = (Return u, s')"
    by (auto simp: bind_Return)
  from Cons.prems(3)[OF _ Cons.prems(2) 1] have "I t" by simp
  with 2 show ?case by (rule Cons.IH) (rule Cons.prems(3), auto)
qed

lemma Inv_MATE_nonneg: "Inv s \<Longrightarrow> getitem MATE i s = (Return a, s') \<Longrightarrow> s' = s \<and> 0 \<le> a"
  by (drule getitem_in_set) (simp add: Inv_def nonneg_inv_def)

lemma Inv_FIRST_nonneg: "Inv s \<Longrightarrow> getitem FIRST i s = (Return a, s') \<Longrightarrow> s' = s \<and> 0 \<le> a"
  by (drule getitem_in_set) (simp add: Inv_def nonneg_inv_def)

lemma Inv_END_nonneg: "Inv s \<Longrightarrow> getitem END i s = (Return a, s') \<Longrightarrow> s' = s \<and> 0 \<le> a"
  by (drule getitem_in_set) (simp add: Inv_def nonneg_inv_def)

lemma getitem_same: "getitem fld i s = (Return a, s') \<Longrightarrow> s' = s"
  by (simp add: getitem_Return)

lemma next_nonouter_Inv:
  "Inv s \<Longrightarrow> next_nonouter r s = (Return a, s') \<Longrightarrow> s' = s \<and> 0 \<le> a"
  unfolding next_nonouter_def bind_Return
  by (metis Inv_FIRST_nonneg getitem_same)

lemma isFlagged_same: "isFlagged v n s = (Return b, s') \<Longrightarrow> s' = s"
  unfolding isFlagged_def bind_Return return_Return
  by (metis getitem_same)

lemma setFlag_Inv: "Inv s \<Longrightarrow> 0 \<le> v \<Longrightarrow> setFlag v n s = (Return u, s') \<Longrightarrow> Inv s'"
  unfolding setFlag_def by (rule setLabel_Inv)

lemma L_find_Suc: "\<exists>r1 s1. L_find (Suc k) n r s0 = L_find_body k n r1 s1"
proof (cases "s0 = 0")
  case True
  then have "L_find (Suc k) n r s0 = L_find_body k n r 0"
    by (simp add: L_find_body_def)
  then show ?thesis by blast
next
  case False
  then have "L_find (Suc k) n r s0 = L_find_body k n s0 r"
    by (simp add: L_find_body_def)
  then show ?thesis by blast
qed

lemma L_find_Inv:
  "Inv s \<Longrightarrow> L_find k n r s0 s = (Return j, s') \<Longrightarrow> Inv s' \<and> 0 \<le> j"
proof (induction k arbitrary: r s0 s)
  case 0
  then show ?case by simp
next
  case (Suc k)
  obtain r1 s1 where "L_find (Suc k) n r s0 = L_find_body k n r1 s1"
    using L_find_Suc by blast
  with Suc.prems(2) have
    "bind_prog (next_nonouter r1) (\<lambda>r'.
         bind_prog (isFlagged r' n) (\<lambda>f.
           if f then return r'
           else bind_prog (setFlag r' n) (\<lambda>_. L_find k n r' s1))) s = (Return j, s')"
    by (simp add: L_find_body_def)
  then obtain r2 f where a: "next_nonouter r1 s = (Return r2, s)" "0 \<le> r2"
    and b: "isFlagged r2 n s = (Return f, s)"
    and c: "(if f then return r2
             else bind_prog (setFlag r2 n) (\<lambda>_. L_find k n r2 s1)) s = (Return j, s')"
    unfolding bind_Return
    by (metis next_nonouter_Inv[OF Suc.prems(1)] isFlagged_same)
  show ?case
  proof (cases f)
    case True
    with c a Suc.prems(1) show ?thesis by (simp add: return_Return)
  next
    case False
    with c obtain t where d: "setFlag r2 n s = (Return (), t)"
      and e: "L_find k n r2 s1 t = (Return j, s')"
      by (auto simp: bind_Return)
    from setFlag_Inv[OF Suc.prems(1) a(2) d] have "Inv t" .
    from Suc.IH[OF this e] show ?thesis .
  qed
qed

lemma L_label_Inv:
  "Inv s \<Longrightarrow> 0 \<le> v \<Longrightarrow> 0 \<le> j \<Longrightarrow> L_label k n j v s = (Return u, s') \<Longrightarrow> Inv s'"
proof (induction k arbitrary: v s)
  case 0
  then show ?case by simp
next
  case (Suc k)
  show ?case
  proof (cases "v = j")
    case True
    with Suc.prems show ?thesis by (simp add: return_Return)
  next
    case False
    with Suc.prems(4) obtain t1 t2 v' t3 where a: "setLabel v n s = (Return (), t1)"
      and b: "set_FIRST v j t1 = (Return (), t2)"
      and c: "next_nonouter v t2 = (Return v', t3)"
      and d: "L_label k n j v' t3 = (Return u, s')"
      by (auto simp: bind_Return)
    from setLabel_Inv[OF Suc.prems(1,2) a] have "Inv t1" .
    from set_FIRST_Inv[OF this Suc.prems(3) b] have "Inv t2" .
    from next_nonouter_Inv[OF this c] have "t3 = t2" "0 \<le> v'" by simp_all
    with Suc.IH[of t3 v'] \<open>Inv t2\<close> Suc.prems(3) d show ?thesis by simp
  qed
qed

lemma keeps_InvD: "keeps_Inv m P \<Longrightarrow> Inv s \<Longrightarrow> m s = (Return a, s') \<Longrightarrow> Inv s' \<and> P a"
  by (simp add: keeps_Inv_def)

lemma keeps_bind:
  assumes "keeps_Inv m P" and "\<And>a. P a \<Longrightarrow> keeps_Inv (f a) Q"
  shows "keeps_Inv (bind_prog m f) Q"
  unfolding keeps_Inv_def
proof (intro allI impI)
  fix s b s''
  assume i: "Inv s" and r: "bind_prog m f s = (Return b, s'')"
  from r obtain a s' where 1: "m s = (Return a, s')" and 2: "f a s' = (Return b, s'')"
    unfolding bind_Return by blast
  from keeps_InvD[OF assms(1) i 1] have "Inv s'" "P a" by simp_all
  from keeps_InvD[OF assms(2)[OF this(2)] this(1) 2] show "Inv s'' \<and> Q b" .
qed

lemma keeps_weaken: "keeps_Inv m P \<Longrightarrow> (\<And>a. P a \<Longrightarrow> Q a) \<Longrightarrow> keeps_Inv m Q"
  by (auto simp: keeps_Inv_def)

lemma keeps_return: "P a \<Longrightarrow> keeps_Inv (return a) P"
  by (simp add: keeps_Inv_def return_Return)

lemma keeps_raise: "keeps_Inv (raise e) P"
  by (simp add: keeps_Inv_def raise_Return)

lemma keeps_getitem: "keeps_Inv (getitem fld i) (\<lambda>_. True)"
  by (simp add: keeps_Inv_def getitem_Return)

lemma keeps_getitem_MATE: "keeps_Inv (getitem MATE i) (\<lambda>a. 0 \<le> a)"
  unfolding keeps_Inv_def using Inv_MATE_nonneg by blast

lemma keeps_getitem_FIRST: "keeps_Inv (getitem FIRST i) (\<lambda>a. 0 \<le> a)"
  unfolding keeps_Inv_def using Inv_FIRST_nonneg by blast

lemma keeps_getitem_END: "keeps_Inv (getitem END i) (\<lambda>a. 0 \<le> a)"
  unfolding keeps_Inv_def using Inv_END_nonneg by blast

lemma keeps_set_MATE: "0 \<le> x \<Longrightarrow> keeps_Inv (set_MATE i x) (\<lambda>_. True)"
  unfolding keeps_Inv_def using set_MATE_Inv by blast

lemma keeps_set_FIRST: "0 \<le> x \<Longrightarrow> keeps_Inv (set_FIRST i x) (\<lambda>_. True)"
  unfolding keeps_Inv_def using set_FIRST_Inv by blast

lemma keeps_setLabel: "0 \<le> v \<Longrightarrow> keeps_Inv (setLabel v l) (\<lambda>_. True)"
  unfolding keeps_Inv_def using setLabel_Inv by blast

lemma keeps_setFlag: "0 \<le> v \<Longrightarrow> keeps_Inv (setFlag v n) (\<lambda>_. True)"
  unfolding setFlag_def by (rule keeps_setLabel)

lemma keeps_next_nonouter: "keeps_Inv (next_nonouter r) (\<lambda>a. 0 \<le> a)"
  unfolding keeps_Inv_def using next_nonouter_Inv by blast

lemma keeps_L_find: "keeps_Inv (L_find k n r s0) (\<lambda>j. 0 \<le> j)"
  unfolding keeps_Inv_def using L_find_Inv by blast

lemma keeps_L_label: "0 \<le> v \<Longrightarrow> 0 \<le> j \<Longrightarrow> keeps_Inv (L_label k n j v) (\<lambda>_. True)"
  unfolding keeps_Inv_def using L_label_Inv by blast

lemma keeps_isOuterVertex: "keeps_Inv (isOuterVertex v) (\<lambda>_. True)"
  by (simp add: keeps_Inv_def isOuterVertex_def)

lemma keeps_isMatched: "keeps_Inv (isMatched v) (\<lambda>_. True)"
  unfolding isMatched_def
  by (rule keeps_bind[OF keeps_getitem]) (simp add: keeps_return)

lemma keeps_for_each:
  assumes "\<And>x. x \<in> set xs \<Longrightarrow> keeps_Inv (f x) (\<lambda>_. True)"
  shows "keeps_Inv (for_each xs f) (\<lambda>_. True)"
  unfolding keeps_Inv_def
proof (intro allI impI)
  fix s a s'
  assume "Inv s" and "for_each xs f s = (Return a, s')"
  from for_each_preserves[OF this(2), where I = Inv, OF this(1)] assms
  show "Inv s' \<and> True" by (auto dest: keeps_InvD)
qed

lemma keeps_L5:
  assumes "0 \<le> j"
  shows "keeps_Inv (\<lambda>st. for_each (outerVertices st) (\<lambda>i.
             bind_prog (getitem FIRST i) (\<lambda>fi.
             bind_prog (isOuterVertex fi) (\<lambda>b.
               if b then set_FIRST i j else return ()))) st) (\<lambda>_. True)"
proof -
  have "keeps_Inv (for_each vs (\<lambda>i.
             bind_prog (getitem FIRST i) (\<lambda>fi.
             bind_prog (isOuterVertex fi) (\<lambda>b.
               if b then set_FIRST i j else return ())))) (\<lambda>_. True)" for vs
    by (intro keeps_for_each keeps_bind[OF keeps_getitem] keeps_bind[OF keeps_isOuterVertex])
       (simp add: keeps_set_FIRST[OF assms] keeps_return)
  then show ?thesis by (simp add: keeps_Inv_def)
qed

lemma keeps_L: "keeps_Inv (L k x y n) (\<lambda>_. True)"
  unfolding L_def
proof (rule keeps_bind[OF keeps_getitem_FIRST], rule keeps_bind[OF keeps_getitem])
  fix r s0 :: int
  assume r: "0 \<le> r"
  show "keeps_Inv (if r = s0 then return ()
        else bind_prog (setFlag r n) (\<lambda>_.
             bind_prog (L_find k n r s0) (\<lambda>join.
             bind_prog (getitem FIRST x) (\<lambda>v1.
             bind_prog (getitem FIRST y) (\<lambda>v2.
             bind_prog (for_each [v1, v2] (L_label k n join)) (\<lambda>_. (\<lambda>st.
               for_each (outerVertices st) (\<lambda>i.
                 bind_prog (getitem FIRST i) (\<lambda>fi.
                 bind_prog (isOuterVertex fi) (\<lambda>b.
                   if b then set_FIRST i join else return ()))) st))))))) (\<lambda>_. True)"
  proof (cases "r = s0")
    case True
    then show ?thesis by (simp add: keeps_return)
  next
    case False
    have "keeps_Inv (bind_prog (setFlag r n) (\<lambda>_.
             bind_prog (L_find k n r s0) (\<lambda>join.
             bind_prog (getitem FIRST x) (\<lambda>v1.
             bind_prog (getitem FIRST y) (\<lambda>v2.
             bind_prog (for_each [v1, v2] (L_label k n join)) (\<lambda>_. (\<lambda>st.
               for_each (outerVertices st) (\<lambda>i.
                 bind_prog (getitem FIRST i) (\<lambda>fi.
                 bind_prog (isOuterVertex fi) (\<lambda>b.
                   if b then set_FIRST i join else return ()))) st))))))) (\<lambda>_. True)"
      apply (rule keeps_bind[OF keeps_setFlag[OF r]])
      apply (rule keeps_bind[OF keeps_L_find])
      apply (rule keeps_bind[OF keeps_getitem_FIRST])
      apply (rule keeps_bind[OF keeps_getitem_FIRST])
      apply (rule keeps_bind[where P = "\<lambda>_. True"])
       apply (rule keeps_for_each)
       apply (auto intro: keeps_L_label)[1]
      apply (rule keeps_L5)
      apply assumption
      done
    with False show ?thesis by simp
  qed
qed

lemma keeps_getEdge: "keeps_Inv (getEdge n) (\<lambda>e. 0 \<le> fst e \<and> 0 \<le> snd e)"
proof -
  have "keeps_Inv (bind_prog (getitem END k) (\<lambda>a.
          bind_prog (getitem END (k + 1)) (\<lambda>b. return (a, b))))
          (\<lambda>e. 0 \<le> fst e \<and> 0 \<le> snd e)" for k
    by (intro keeps_bind[OF keeps_getitem_END] keeps_return) simp
  then show ?thesis by (simp add: keeps_Inv_def getEdge_def Let_def)
qed

lemma keeps_chooseAnEdge:
  "keeps_Inv chooseAnEdge (\<lambda>c. \<forall>x n. c = Some (x, n) \<longrightarrow> 0 \<le> x)"
proof -
  have "Inv (s\<lparr>outerIdx := i\<rparr>) = Inv s" for s i
    by (simp add: Inv_def nonneg_inv_def label_inv_def)
  moreover have "Inv s \<Longrightarrow> i < length (outerEdges s) \<Longrightarrow> outerEdges s ! i = (x, n) \<Longrightarrow> 0 \<le> x"
    for s i x n
    by (metis Inv_def nonneg_inv_def fst_conv nth_mem)
  ultimately show ?thesis
    by (auto simp: keeps_Inv_def chooseAnEdge_def split: if_splits)
qed

text \<open>
  Step R2: \<open>hasVertexLabel(v)\<close> has just answered True when \<open>LABEL[v]\<close> is read again,
  so the value read is at least 1.
\<close>

lemma hasVertexLabel_Return:
  "hasVertexLabel v s = (Return b, s') \<Longrightarrow>
     s' = s \<and> (b \<longrightarrow> (\<exists>k. py_index (LABEL s) v = Some k \<and> 1 \<le> LABEL s ! k))"
  by (auto simp: hasVertexLabel_def bind_Return getitem_Return return_Return split: if_splits)

lemma keeps_R2:
  assumes "\<And>l. 1 \<le> l \<Longrightarrow> keeps_Inv (K l) Q" and "keeps_Inv M Q"
  shows "keeps_Inv (bind_prog (hasVertexLabel v) (\<lambda>b.
           if b then bind_prog (getitem LABEL v) K else M)) Q"
  unfolding keeps_Inv_def
proof (intro allI impI)
  fix s a s'
  assume i: "Inv s" and
    r: "bind_prog (hasVertexLabel v) (\<lambda>b.
           if b then bind_prog (getitem LABEL v) K else M) s = (Return a, s')"
  from r obtain b where h: "hasVertexLabel v s = (Return b, s)"
    and c: "(if b then bind_prog (getitem LABEL v) K else M) s = (Return a, s')"
    unfolding bind_Return using hasVertexLabel_Return by blast
  show "Inv s' \<and> Q a"
  proof (cases b)
    case True
    with hasVertexLabel_Return[OF h] obtain k where
      k: "py_index (LABEL s) v = Some k" "1 \<le> LABEL s ! k" by blast
    from True c k(1) have "K (LABEL s ! k) s = (Return a, s')"
      by (simp add: bind_Return getitem_Return)
    from keeps_InvD[OF assms(1)[OF k(2)] i this] show ?thesis .
  next
    case False
    with c have "M s = (Return a, s')" by simp
    from keeps_InvD[OF assms(2) i this] show ?thesis .
  qed
qed

lemma keeps_R: "0 \<le> w \<Longrightarrow> keeps_Inv (R d v w) (\<lambda>_. True)"
proof (induction d arbitrary: v w)
  case 0
  show ?case by (simp add: keeps_raise)
next
  case (Suc d)
  have tail: "keeps_Inv (if mt \<noteq> v then return ()
       else bind_prog (hasVertexLabel v) (\<lambda>b.
           if b
           then bind_prog (getitem LABEL v) (\<lambda>l.
                bind_prog (set_MATE t l) (\<lambda>_.
                bind_prog (getitem LABEL v) (\<lambda>l'. R d l' t)))
           else bind_prog (getitem LABEL v) (\<lambda>l.
                bind_prog (getEdge l) (\<lambda>(x, y).
                bind_prog (R d x y) (\<lambda>_. R d y x))))) (\<lambda>_. True)"
    if t: "0 \<le> t" for t mt
  proof (cases "mt \<noteq> v")
    case True
    then show ?thesis by (simp add: keeps_return)
  next
    case False
    have a: "keeps_Inv (bind_prog (set_MATE t l) (\<lambda>_.
                bind_prog (getitem LABEL v) (\<lambda>l'. R d l' t))) (\<lambda>_. True)"
      if "1 \<le> l" for l
      using that t
      by (intro keeps_bind[OF keeps_set_MATE] keeps_bind[OF keeps_getitem] Suc.IH) simp_all
    have b: "keeps_Inv (bind_prog (getitem LABEL v) (\<lambda>l.
                bind_prog (getEdge l) (\<lambda>(x, y).
                bind_prog (R d x y) (\<lambda>_. R d y x)))) (\<lambda>_. True)"
      apply (rule keeps_bind[OF keeps_getitem])
      apply (rule keeps_bind[OF keeps_getEdge])
      apply (clarsimp split: prod.split)
      apply (rule keeps_bind[where P = "\<lambda>_. True"])
       apply (rule Suc.IH, assumption)
      apply (rule Suc.IH, assumption)
      done
    from keeps_R2[of "\<lambda>l. bind_prog (set_MATE t l) (\<lambda>_.
                bind_prog (getitem LABEL v) (\<lambda>l'. R d l' t))", OF a b] False
    show ?thesis by simp
  qed
  show ?case
    unfolding R.simps
    apply (rule keeps_bind[OF keeps_getitem_MATE])
    apply (rule keeps_bind[OF keeps_set_MATE[OF Suc.prems]])
    apply (rule keeps_bind[OF keeps_getitem])
    apply (rule tail)
    apply assumption
    done
qed

lemma ends_bind:
  assumes "keeps_Inv m P" and "\<And>a. P a \<Longrightarrow> ends_quiescent (f a)"
  shows "ends_quiescent (bind_prog m f)"
  unfolding ends_quiescent_def
proof (intro allI impI)
  fix s b s''
  assume i: "Inv s" and r: "bind_prog m f s = (Return b, s'')"
  from r obtain a s' where 1: "m s = (Return a, s')" and 2: "f a s' = (Return b, s'')"
    unfolding bind_Return by blast
  from keeps_InvD[OF assms(1) i 1] have "Inv s'" "P a" by simp_all
  with assms(2)[of a] 2 show "quiescent s''" by (auto simp: ends_quiescent_def)
qed

lemma setLabel_negative:
  assumes "l < 0" and "setLabel v l s = (Return u, s')"
  shows "\<exists>k. py_index (LABEL s) v = Some k \<and> s' = s\<lparr>LABEL := (LABEL s)[k := l]\<rparr>"
  using setLabel_Return[OF assms(2)] assms(1) by auto

lemma stop_loop:
  assumes "for_each rem (\<lambda>v.
             bind_prog (setLabel v (- 1)) (\<lambda>_.
             bind_prog (getitem MATE v) (\<lambda>m. setLabel m (- 1)))) t = (Return u, t')"
    and "nonneg_inv t" and "\<forall>v\<in>set rem. 0 \<le> v"
    and "\<forall>i<length (LABEL t). 0 \<le> LABEL t ! i \<longrightarrow> int i \<in> set rem"
  shows "nonneg_inv t' \<and> (\<forall>l\<in>set (LABEL t'). l < 0)"
  using assms
proof (induction rem arbitrary: t)
  case Nil
  then have "t' = t" by (simp add: return_Return)
  moreover from Nil.prems(4) have "\<forall>l\<in>set (LABEL t). l < 0"
    by (metis empty_iff empty_set in_set_conv_nth not_le_imp_less)
  ultimately show ?case using Nil.prems(2) by simp
next
  case (Cons v rem)
  from Cons.prems(1) obtain t3 where
    body: "bind_prog (setLabel v (- 1)) (\<lambda>_.
             bind_prog (getitem MATE v) (\<lambda>m. setLabel m (- 1))) t = (Return (), t3)"
    and rest: "for_each rem (\<lambda>v.
             bind_prog (setLabel v (- 1)) (\<lambda>_.
             bind_prog (getitem MATE v) (\<lambda>m. setLabel m (- 1)))) t3 = (Return u, t')"
    by (auto simp: bind_Return)
  from body obtain t1 m where a: "setLabel v (- 1) t = (Return (), t1)"
    and b: "setLabel m (- 1) t1 = (Return (), t3)"
    unfolding bind_Return by (auto dest: getitem_same)
  from setLabel_negative[OF _ a] obtain k where
    k: "py_index (LABEL t) v = Some k" and t1: "t1 = t\<lparr>LABEL := (LABEL t)[k := - 1]\<rparr>"
    by auto
  from setLabel_negative[OF _ b] obtain k' where
    k': "py_index (LABEL t1) m = Some k'" and
    t3: "t3 = t1\<lparr>LABEL := (LABEL t1)[k' := - 1]\<rparr>"
    by auto
  from py_index_less[OF k'] have k'l: "k' < length (LABEL t)" by (simp add: t1)
  from Cons.prems(3) k have kv: "k = nat v" by (simp add: py_index_nonneg)
  from k have kl: "k < length (LABEL t)" by (rule py_index_less)
  have 1: "nonneg_inv t3"
    using Cons.prems(2) by (simp add: t3 t1 nonneg_inv_def)
  have 2: "\<forall>v\<in>set rem. 0 \<le> v" using Cons.prems(3) by simp
  have 3: "\<forall>i<length (LABEL t3). 0 \<le> LABEL t3 ! i \<longrightarrow> int i \<in> set rem"
  proof (intro allI impI)
    fix i assume i: "i < length (LABEL t3)" and p: "0 \<le> LABEL t3 ! i"
    from i have il: "i < length (LABEL t)" by (simp add: t3 t1)
    from p il kl k'l have ik: "i \<noteq> k" and "0 \<le> LABEL t ! i"
      by (auto simp: t3 t1 nth_list_update split: if_splits)
    with Cons.prems(4) il have "int i \<in> set (v # rem)" by blast
    moreover from ik kv Cons.prems(3) have "int i \<noteq> v" by auto
    ultimately show "int i \<in> set rem" by simp
  qed
  from Cons.IH[OF rest 1 2 3] show ?case .
qed

lemma ends_stopTheSearch: "ends_quiescent stopTheSearch"
  unfolding ends_quiescent_def
proof (intro allI impI)
  fix s a s'
  assume i: "Inv s" and r: "stopTheSearch s = (Return a, s')"
  from r obtain s1 s2 where
    1: "set_LABEL 0 (- 1) s = (Return (), s1)" and
    2: "for_each (outerVertices s1) (\<lambda>v.
             bind_prog (setLabel v (- 1)) (\<lambda>_.
             bind_prog (getitem MATE v) (\<lambda>m. setLabel m (- 1)))) s1 = (Return (), s2)" and
    3: "s' = s2\<lparr>outerVertices := [], outerEdges := [], outerIdx := 0\<rparr>"
    unfolding stopTheSearch_def bind_Return by auto
  from 1 obtain k where k: "py_index (LABEL s) 0 = Some k"
    and s1: "s1 = s\<lparr>LABEL := (LABEL s)[k := - 1]\<rparr>"
    unfolding set_LABEL_Return by auto
  from i have n1: "nonneg_inv s1" by (simp add: s1 Inv_def nonneg_inv_def)
  from n1 have v1: "\<forall>v\<in>set (outerVertices s1). 0 \<le> v" by (simp add: nonneg_inv_def)
  from k have kl: "k < length (LABEL s)" by (rule py_index_less)
  from i kl have l1: "\<forall>i<length (LABEL s1). 0 \<le> LABEL s1 ! i \<longrightarrow> int i \<in> set (outerVertices s1)"
    by (auto simp: s1 Inv_def label_inv_def nth_list_update split: if_splits)
  from stop_loop[OF 2 n1 v1 l1] have "nonneg_inv s2" "\<forall>l\<in>set (LABEL s2). l < 0"
    by simp_all
  then show "quiescent s'"
    by (simp add: 3 quiescent_def nonneg_inv_def)
qed

lemma quiescent_Inv:
  assumes "quiescent s"
  shows "Inv s"
proof -
  have "\<not> 0 \<le> LABEL s ! i" if "i < length (LABEL s)" for i
    using assms nth_mem[OF that] by (fastforce simp: quiescent_def)
  with assms show ?thesis by (simp add: quiescent_def Inv_def label_inv_def)
qed

lemma xor_nonneg: "0 \<le> x \<Longrightarrow> 0 \<le> a \<Longrightarrow> 0 \<le> b \<Longrightarrow> (0::int) \<le> x XOR a XOR b"
  by simp

lemma ends_E_search: "ends_quiescent (E_search lim k u)"
proof (induction k arbitrary: u)
  case 0
  show ?case by (simp add: ends_quiescent_def)
next
  case (Suc k)
  have E5: "ends_quiescent (bind_prog (getitem MATE y) (\<lambda>v.
              bind_prog (isOuterVertex v) (\<lambda>ov.
              bind_prog (if \<not> ov
                         then bind_prog (setLabel v x) (\<lambda>_. set_FIRST v y)
                         else return ())
                (\<lambda>_. E_search lim k u))))" if y: "0 \<le> y" for x y
    apply (rule ends_bind[OF keeps_getitem_MATE])
    apply (rule ends_bind[OF keeps_isOuterVertex])
    apply (rule ends_bind[where P = "\<lambda>_. True"])
     apply (auto intro!: keeps_return keeps_bind[OF keeps_setLabel] keeps_set_FIRST y)[1]
    apply (rule Suc.IH)
    done
  have scan: "ends_quiescent (bind_prog (getEdge n_xy) (\<lambda>edge.
           let y = x XOR fst edge XOR snd edge
           in bind_prog (isMatched y) (\<lambda>m.
                if \<not> m \<and> y \<noteq> u
                then bind_prog (set_MATE y x) (\<lambda>_.
                     bind_prog (R lim x y) (\<lambda>_. stopTheSearch))
                else
                  bind_prog (isOuterVertex y) (\<lambda>oy.
                    if oy then bind_prog (L k x y n_xy) (\<lambda>_. E_search lim k u)
                    else
                      bind_prog (getitem MATE y) (\<lambda>v.
                      bind_prog (isOuterVertex v) (\<lambda>ov.
                      bind_prog (if \<not> ov
                                 then bind_prog (setLabel v x) (\<lambda>_. set_FIRST v y)
                                 else return ())
                        (\<lambda>_. E_search lim k u)))))))" if x: "0 \<le> x" for x n_xy
  proof (rule ends_bind[OF keeps_getEdge])
    fix edge :: "int \<times> int"
    assume e: "0 \<le> fst edge \<and> 0 \<le> snd edge"
    define y where "y = x XOR fst edge XOR snd edge"
    from x e have y: "0 \<le> y" by (simp add: y_def)
    have "ends_quiescent (bind_prog (isMatched y) (\<lambda>m.
                if \<not> m \<and> y \<noteq> u
                then bind_prog (set_MATE y x) (\<lambda>_.
                     bind_prog (R lim x y) (\<lambda>_. stopTheSearch))
                else
                  bind_prog (isOuterVertex y) (\<lambda>oy.
                    if oy then bind_prog (L k x y n_xy) (\<lambda>_. E_search lim k u)
                    else
                      bind_prog (getitem MATE y) (\<lambda>v.
                      bind_prog (isOuterVertex v) (\<lambda>ov.
                      bind_prog (if \<not> ov
                                 then bind_prog (setLabel v x) (\<lambda>_. set_FIRST v y)
                                 else return ())
                        (\<lambda>_. E_search lim k u))))))"
    proof (rule ends_bind[OF keeps_isMatched])
      fix m :: bool
      have a: "ends_quiescent (bind_prog (set_MATE y x) (\<lambda>_.
                     bind_prog (R lim x y) (\<lambda>_. stopTheSearch)))"
        by (intro ends_bind[OF keeps_set_MATE[OF x]] ends_bind[OF keeps_R[OF y]]
              ends_stopTheSearch)
      have b: "ends_quiescent (bind_prog (isOuterVertex y) (\<lambda>oy.
                    if oy then bind_prog (L k x y n_xy) (\<lambda>_. E_search lim k u)
                    else
                      bind_prog (getitem MATE y) (\<lambda>v.
                      bind_prog (isOuterVertex v) (\<lambda>ov.
                      bind_prog (if \<not> ov
                                 then bind_prog (setLabel v x) (\<lambda>_. set_FIRST v y)
                                 else return ())
                        (\<lambda>_. E_search lim k u)))))"
      proof (rule ends_bind[OF keeps_isOuterVertex])
        fix oy :: bool
        show "ends_quiescent (if oy then bind_prog (L k x y n_xy) (\<lambda>_. E_search lim k u)
                    else
                      bind_prog (getitem MATE y) (\<lambda>v.
                      bind_prog (isOuterVertex v) (\<lambda>ov.
                      bind_prog (if \<not> ov
                                 then bind_prog (setLabel v x) (\<lambda>_. set_FIRST v y)
                                 else return ())
                        (\<lambda>_. E_search lim k u))))"
          using E5[OF y, of x] ends_bind[OF keeps_L, of "\<lambda>_. E_search lim k u" k x y n_xy]
            Suc.IH[of u]
          by (cases oy) simp_all
      qed
      from a b show "ends_quiescent (if \<not> m \<and> y \<noteq> u
                then bind_prog (set_MATE y x) (\<lambda>_.
                     bind_prog (R lim x y) (\<lambda>_. stopTheSearch))
                else
                  bind_prog (isOuterVertex y) (\<lambda>oy.
                    if oy then bind_prog (L k x y n_xy) (\<lambda>_. E_search lim k u)
                    else
                      bind_prog (getitem MATE y) (\<lambda>v.
                      bind_prog (isOuterVertex v) (\<lambda>ov.
                      bind_prog (if \<not> ov
                                 then bind_prog (setLabel v x) (\<lambda>_. set_FIRST v y)
                                 else return ())
                        (\<lambda>_. E_search lim k u)))))"
        by simp
    qed
    then show "ends_quiescent (let y = x XOR fst edge XOR snd edge
           in bind_prog (isMatched y) (\<lambda>m.
                if \<not> m \<and> y \<noteq> u
                then bind_prog (set_MATE y x) (\<lambda>_.
                     bind_prog (R lim x y) (\<lambda>_. stopTheSearch))
                else
                  bind_prog (isOuterVertex y) (\<lambda>oy.
                    if oy then bind_prog (L k x y n_xy) (\<lambda>_. E_search lim k u)
                    else
                      bind_prog (getitem MATE y) (\<lambda>v.
                      bind_prog (isOuterVertex v) (\<lambda>ov.
                      bind_prog (if \<not> ov
                                 then bind_prog (setLabel v x) (\<lambda>_. set_FIRST v y)
                                 else return ())
                        (\<lambda>_. E_search lim k u))))))"
      unfolding y_def Let_def .
  qed
  show ?case
    unfolding E_search.simps
  proof (rule ends_bind[OF keeps_chooseAnEdge])
    fix c :: "(int \<times> int) option"
    assume c: "\<forall>x n. c = Some (x, n) \<longrightarrow> 0 \<le> x"
    show "ends_quiescent (case c of
         None \<Rightarrow> stopTheSearch
       | Some (x, n_xy) \<Rightarrow>
           bind_prog (getEdge n_xy) (\<lambda>edge.
           let y = x XOR fst edge XOR snd edge
           in bind_prog (isMatched y) (\<lambda>m.
                if \<not> m \<and> y \<noteq> u
                then bind_prog (set_MATE y x) (\<lambda>_.
                     bind_prog (R lim x y) (\<lambda>_. stopTheSearch))
                else
                  bind_prog (isOuterVertex y) (\<lambda>oy.
                    if oy then bind_prog (L k x y n_xy) (\<lambda>_. E_search lim k u)
                    else
                      bind_prog (getitem MATE y) (\<lambda>v.
                      bind_prog (isOuterVertex v) (\<lambda>ov.
                      bind_prog (if \<not> ov
                                 then bind_prog (setLabel v x) (\<lambda>_. set_FIRST v y)
                                 else return ())
                        (\<lambda>_. E_search lim k u)))))))"
    proof (cases c)
      case None
      then show ?thesis by (simp add: ends_stopTheSearch)
    next
      case (Some p)
      obtain x n_xy where p: "p = (x, n_xy)" by (cases p)
      with c Some have "0 \<le> x" by simp
      from scan[OF this, of n_xy] Some p show ?thesis by simp
    qed
  qed
qed

lemma quiescent_E_root:
  assumes "quiescent s" and "0 \<le> u" and "E_root lim k u s = (Return a, s')"
  shows "quiescent s'"
proof -
  from assms(3) obtain m where m: "getitem MATE u s = (Return m, s)"
    and r: "(if m > 0 then return ()
       else bind_prog (setLabel u 0) (\<lambda>_.
            bind_prog (set_FIRST u 0) (\<lambda>_. E_search lim k u))) s = (Return a, s')"
    unfolding E_root_def bind_Return by (auto dest: getitem_same)
  show ?thesis
  proof (cases "m > 0")
    case True
    with r assms(1) show ?thesis by (simp add: return_Return)
  next
    case False
    have "ends_quiescent (bind_prog (setLabel u 0) (\<lambda>_.
            bind_prog (set_FIRST u 0) (\<lambda>_. E_search lim k u)))"
      by (intro ends_bind[OF keeps_setLabel[OF assms(2)]] ends_bind[OF keeps_set_FIRST]
            ends_E_search) simp
    with False r quiescent_Inv[OF assms(1)] show ?thesis
      by (auto simp: ends_quiescent_def)
  qed
qed

lemma quiescent_E:
  assumes "quiescent s" and "E lim k s = (Return a, s')"
  shows "quiescent s'"
proof -
  from assms(2) have "for_each [1..V s] (E_root lim k) s = (Return a, s')"
    by (simp add: E_def)
  then show ?thesis
  proof (rule for_each_preserves[where I = quiescent])
    show "quiescent s" by fact
  next
    fix x t t'
    assume "x \<in> set [1..V s]" and "quiescent t" and "E_root lim k x t = (Return (), t')"
    then show "quiescent t'" by (intro quiescent_E_root[of t x lim k "()" t']) simp_all
  qed
qed

lemma quiescent_init: "quiescent (init n)"
  by (simp add: quiescent_def nonneg_inv_def init_def)

lemma quiescent_outer_iff_label:
  assumes "quiescent s"
  shows "outer_iff_label s"
proof -
  have "\<not> 0 \<le> LABEL s ! k" if "py_index (LABEL s) v = Some k" for v k
    using assms nth_mem[OF py_index_less[OF that]] by (fastforce simp: quiescent_def)
  with assms show ?thesis by (auto simp: outer_iff_label_def quiescent_def)
qed

lemma setLabel_adds_outer:
  assumes "setLabel x l t = (Return (), t')" and "0 \<le> l"
  shows "x \<in> set (outerVertices t')"
  using setLabel_Return[OF assms(1)] assms(2)
  by (cases "x \<in> set (outerVertices t)") auto

lemma setLabel_negative_keeps_outer:
  assumes "setLabel x l t = (Return (), t')" and "l < 0"
  shows "outerVertices t' = outerVertices t"
  using setLabel_negative[OF assms(2) assms(1)] by auto

lemma quiescent_addEdge:
  assumes "quiescent s" and "0 \<le> v" and "0 \<le> w"
  shows "quiescent (snd (addEdge v w s))"
  using assms
  by (auto simp: addEdge_result Let_def quiescent_def nonneg_inv_def split: option.splits)

text \<open>
  C7 fails as stated: a label write that takes the label of an outer vertex below 0
  does not update the outer set. On the triangle, after \<open>setLabel(1, 0)\<close> (step E1 for
  the root 1) vertex 1 is outer with label 0; \<open>setLabel(1, -1)\<close>, the first call that
  \<open>stopTheSearch\<close> makes, leaves \<open>LABEL[1] = -1\<close> and vertex 1 in the outer set.
\<close>

theorem label_write_keeps_membership_counterexample:
  "LABEL (snd (setLabel 1 0 (graph_of 3 triangle))) ! 1 = 0 \<and>
   1 \<in> set (outerVertices (snd (setLabel 1 0 (graph_of 3 triangle)))) \<and>
   fst (setLabel 1 (- 1) (snd (setLabel 1 0 (graph_of 3 triangle)))) = Return () \<and>
   LABEL (snd (setLabel 1 (- 1) (snd (setLabel 1 0 (graph_of 3 triangle))))) ! 1 = - 1 \<and>
   1 \<in> set (outerVertices (snd (setLabel 1 (- 1) (snd (setLabel 1 0 (graph_of 3 triangle))))))"
  by code_simp

text \<open>
  C7, amended. Between the public operations the object is quiescent: it is so when
  it is created, it stays so under \<open>addEdge\<close> with vertex ids that are not negative,
  and it is so again whenever \<open>E()\<close> returns. In a quiescent object the outer set is
  empty and every label is negative, so a vertex of \<open>1..V\<close> is in the outer set if and
  only if its label is at least 0. Inside a search, \<open>setLabel\<close> puts the vertex into the
  outer set in the same call in which it writes a label that is at least 0; a write
  of a negative label leaves the outer set as it is (the set is emptied by
  \<open>stopTheSearch\<close> only).
\<close>

theorem outer_set_between_operations:
  assumes "quiescent s"
  shows "outer_iff_label s \<and>
         quiescent (init n) \<and>
         (0 \<le> v \<and> 0 \<le> w \<longrightarrow> quiescent (snd (addEdge v w s))) \<and>
         (E lim k s = (Return (), s') \<longrightarrow> quiescent s' \<and> outer_iff_label s') \<and>
         (\<forall>x l t t'. setLabel x l t = (Return (), t') \<longrightarrow>
            (0 \<le> l \<longrightarrow> x \<in> set (outerVertices t')) \<and>
            (l < 0 \<longrightarrow> outerVertices t' = outerVertices t))"
  using assms quiescent_outer_iff_label quiescent_init quiescent_addEdge quiescent_E
    setLabel_adds_outer setLabel_negative_keeps_outer
  by blast

lemma triangle_quiescent:
  "quiescent (graph_of 3 triangle) \<and> E 5 30 (graph_of 3 triangle) = (Return (), snd (E 5 30 (graph_of 3 triangle)))"
  by code_simp

theorem outer_set_between_operations_witness:
  "quiescent (graph_of 3 triangle) \<and>
   E 5 30 (graph_of 3 triangle) = (Return (), snd (E 5 30 (graph_of 3 triangle))) \<and>
   (0::int) \<le> 1 \<and> (0::int) \<le> 2 \<and>
   quiescent (snd (addEdge 1 2 (graph_of 3 triangle))) \<and>
   quiescent (snd (E 5 30 (graph_of 3 triangle))) \<and>
   outer_iff_label (snd (E 5 30 (graph_of 3 triangle)))"
  using outer_set_between_operations[where s = "graph_of 3 triangle" and v = 1 and w = 2
      and lim = 5 and k = 30 and s' = "snd (E 5 30 (graph_of 3 triangle))"]
    triangle_quiescent
  by simp


section \<open>The flags of \<open>L\<close>\<close>

lemma setLabel_FIRST: "setLabel v l s = (Return u, s') \<Longrightarrow> FIRST s' = FIRST s"
  by (drule setLabel_Return) (auto split: if_splits)

lemma setLabel_LABEL:
  "setLabel v l s = (Return u, s') \<Longrightarrow>
     \<exists>k. py_index (LABEL s) v = Some k \<and> LABEL s' = (LABEL s)[k := l]"
  by (drule setLabel_Return) (auto split: if_splits)

lemma next_nonouter_in_FIRST:
  "next_nonouter r s = (Return a, s') \<Longrightarrow> s' = s \<and> a \<in> set (FIRST s)"
  unfolding next_nonouter_def bind_Return
  by (metis getitem_in_set)

lemma isFlagged_Return:
  "isFlagged v n s = (Return b, s') \<Longrightarrow>
     s' = s \<and> (b \<longrightarrow> (\<exists>k. py_index (LABEL s) v = Some k \<and> LABEL s ! k = - n))"
  by (auto simp: isFlagged_def bind_Return getitem_Return return_Return)

lemma L_find_flag:
  assumes "\<forall>f\<in>set (FIRST s). 0 \<le> f" and "L_find k e r s0 s = (Return j, s')"
  shows "FIRST s' = FIRST s \<and> j \<in> set (FIRST s) \<and> flag_on e j s'"
  using assms
proof (induction k arbitrary: r s0 s)
  case 0
  then show ?case by simp
next
  case (Suc k)
  obtain r1 s1 where "L_find (Suc k) e r s0 = L_find_body k e r1 s1"
    using L_find_Suc by blast
  with Suc.prems(2) have
    "bind_prog (next_nonouter r1) (\<lambda>r'.
         bind_prog (isFlagged r' e) (\<lambda>f.
           if f then return r'
           else bind_prog (setFlag r' e) (\<lambda>_. L_find k e r' s1))) s = (Return j, s')"
    by (simp add: L_find_body_def)
  then obtain r2 f where a: "next_nonouter r1 s = (Return r2, s)" "r2 \<in> set (FIRST s)"
    and b: "isFlagged r2 e s = (Return f, s)"
    and c: "(if f then return r2
             else bind_prog (setFlag r2 e) (\<lambda>_. L_find k e r2 s1)) s = (Return j, s')"
    unfolding bind_Return
    by (metis next_nonouter_in_FIRST isFlagged_Return)
  from a(2) Suc.prems(1) have r2: "0 \<le> r2" by simp
  show ?case
  proof (cases f)
    case True
    with c have j: "j = r2" and s': "s' = s" by (simp_all add: return_Return)
    from True isFlagged_Return[OF b] obtain i where
      i: "py_index (LABEL s) r2 = Some i" "LABEL s ! i = - e" by blast
    from py_index_nonneg[OF i(1) r2] py_index_less[OF i(1)] i(2)
    have "nat r2 < length (LABEL s)" "LABEL s ! nat r2 = - e" by simp_all
    with j s' a(2) r2 Suc.prems(1) show ?thesis by (simp add: flag_on_def)
  next
    case False
    with c obtain t where d: "setFlag r2 e s = (Return (), t)"
      and e: "L_find k e r2 s1 t = (Return j, s')"
      by (auto simp: bind_Return)
    from d have ft: "FIRST t = FIRST s" unfolding setFlag_def by (rule setLabel_FIRST)
    with Suc.prems(1) have "\<forall>f\<in>set (FIRST t). 0 \<le> f" by simp
    from Suc.IH[OF this e] ft show ?thesis by simp
  qed
qed

lemma in_set_upd_same: "j \<in> set xs \<Longrightarrow> j \<in> set (xs[k := j])"
  by (metis in_set_conv_nth length_list_update nth_list_update_eq nth_list_update_neq)

lemma set_FIRST_flag:
  assumes "flag_on e j t" and "set_FIRST i j t = (Return u, t')"
  shows "flag_on e j t' \<and> j \<in> set (FIRST t')"
proof -
  from assms(2) obtain k where k: "py_index (FIRST t) i = Some k"
    and t': "t' = t\<lparr>FIRST := (FIRST t)[k := j]\<rparr>"
    unfolding set_FIRST_Return by auto
  from py_index_less[OF k] have "j \<in> set ((FIRST t)[k := j])" by (rule set_update_memI)
  moreover from assms(1) have "\<forall>f\<in>set ((FIRST t)[k := j]). 0 \<le> f"
    by (auto simp: flag_on_def dest!: in_set_updD)
  ultimately show ?thesis using assms(1) by (simp add: t' flag_on_def)
qed

lemma L_label_flag:
  assumes "flag_on e j t" and "0 \<le> v" and "L_label k e j v t = (Return u, t')"
  shows "flag_on e j t' \<and> (v \<noteq> j \<or> j \<in> set (FIRST t) \<longrightarrow> j \<in> set (FIRST t'))"
  using assms
proof (induction k arbitrary: v t)
  case 0
  then show ?case by simp
next
  case (Suc k)
  show ?case
  proof (cases "v = j")
    case True
    with Suc.prems show ?thesis by (simp add: return_Return)
  next
    case False
    with Suc.prems(3) obtain t1 t2 v' t3 where a: "setLabel v e t = (Return (), t1)"
      and b: "set_FIRST v j t1 = (Return (), t2)"
      and c: "next_nonouter v t2 = (Return v', t3)"
      and d: "L_label k e j v' t3 = (Return u, t')"
      by (auto simp: bind_Return)
    from setLabel_LABEL[OF a] obtain i where
      i: "py_index (LABEL t) v = Some i" and l1: "LABEL t1 = (LABEL t)[i := e]" by blast
    from py_index_nonneg[OF i Suc.prems(2)] have iv: "i = nat v" .
    from Suc.prems(1) have j0: "0 \<le> j" by (simp add: flag_on_def)
    from False iv Suc.prems(2) j0 have "i \<noteq> nat j" by auto
    with Suc.prems(1) l1 setLabel_FIRST[OF a] have "flag_on e j t1"
      by (simp add: flag_on_def)
    from set_FIRST_flag[OF this b] have t2: "flag_on e j t2" "j \<in> set (FIRST t2)"
      by simp_all
    from next_nonouter_in_FIRST[OF c] have t3: "t3 = t2" and "v' \<in> set (FIRST t2)"
      by simp_all
    with t2(1) have "0 \<le> v'" by (simp add: flag_on_def)
    from Suc.IH[OF _ this, of t2] t2 d t3 show ?thesis by simp
  qed
qed

lemma isOuterVertex_same: "isOuterVertex v s = (Return b, s') \<Longrightarrow> s' = s"
  by (simp add: isOuterVertex_def)

lemma L5_flag:
  assumes "flag_on e j t \<and> j \<in> set (FIRST t)"
    and "for_each vs (\<lambda>i.
             bind_prog (getitem FIRST i) (\<lambda>fi.
             bind_prog (isOuterVertex fi) (\<lambda>b.
               if b then set_FIRST i j else return ()))) t = (Return u, t')"
  shows "flag_on e j t' \<and> j \<in> set (FIRST t')"
proof (rule for_each_preserves[OF assms(2), where I = "\<lambda>t. flag_on e j t \<and> j \<in> set (FIRST t)"])
  show "flag_on e j t \<and> j \<in> set (FIRST t)" by fact
next
  fix x t1 t2
  assume i: "flag_on e j t1 \<and> j \<in> set (FIRST t1)" and
    "bind_prog (getitem FIRST x) (\<lambda>fi.
       bind_prog (isOuterVertex fi) (\<lambda>b.
         if b then set_FIRST x j else return ())) t1 = (Return (), t2)"
  then obtain b where "(if b then set_FIRST x j else return ()) t1 = (Return (), t2)"
    unfolding bind_Return by (auto dest: getitem_same isOuterVertex_same)
  with i show "flag_on e j t2 \<and> j \<in> set (FIRST t2)"
    by (cases b) (auto simp: return_Return dest: set_FIRST_flag)
qed


lemma bind_ReturnE:
  assumes "bind_prog m f s = (Return b, s'')"
  obtains a s' where "m s = (Return a, s')" and "f a s' = (Return b, s'')"
  using assms unfolding bind_Return by blast

text \<open>
  C8 fails as stated. In the search from vertex 5 on \<open>base_blossom\<close>, \<open>E\<close> takes the
  entry (2,14) from the queue, finds the other end 4 of edge 14 matched and outer, and
  calls \<open>L(2, 4, 14)\<close>. \<open>L\<close> returns, and at that moment vertex 1, the join, has
  \<open>LABEL[1] = -14\<close>. (The whole run of \<open>E\<close> returns.)
\<close>

theorem flag_left_after_L_counterexample:
  "fst (E 20 3 (graph_of 5 base_blossom)) = OutOfFuel \<and>
   fst (chooseAnEdge (snd (E 20 3 (graph_of 5 base_blossom)))) = Return (Some (2, 14)) \<and>
   fst (getEdge 14 before_L) = Return (2, 4) \<and>
   fst (isMatched 4 before_L) = Return True \<and>
   fst (isOuterVertex 4 before_L) = Return True \<and>
   fst (L 10 2 4 14 before_L) = Return () \<and>
   LABEL (snd (L 10 2 4 14 before_L)) ! 1 = - 14 \<and>
   fst (E 20 100 (graph_of 5 base_blossom)) = Return ()"
  by code_simp

text \<open>
  C8, amended. \<open>L\<close> does not take the flag off the join. Whenever \<open>L(x, y, e)\<close> gets past
  its first test (\<open>FIRST[x]\<close> and \<open>FIRST[y]\<close> differ) and returns, on an object none of
  whose \<open>FIRST\<close> entries is negative, then at the moment \<open>L\<close> returns the join, which is
  the value that \<open>L\<close> has written to \<open>FIRST\<close> (a vertex, or the sentinel 0), still has
  \<open>LABEL = -e\<close>.
\<close>

theorem flag_stays_on_join:
  assumes "\<forall>f\<in>set (FIRST s). 0 \<le> f"
    and "L k x y e s = (Return (), s')"
    and "fst (getitem FIRST x s) \<noteq> fst (getitem FIRST y s)"
  shows "\<exists>j\<in>set (FIRST s'). 0 \<le> j \<and> nat j < length (LABEL s') \<and> LABEL s' ! nat j = - e"
proof -
  let ?L5 = "\<lambda>j. (\<lambda>st. for_each (outerVertices st) (\<lambda>i.
             bind_prog (getitem FIRST i) (\<lambda>fi.
             bind_prog (isOuterVertex fi) (\<lambda>b.
               if b then set_FIRST i j else return ()))) st)"
  let ?K4 = "\<lambda>j v1 v2. bind_prog (for_each [v1, v2] (L_label k e j)) (\<lambda>_. ?L5 j)"
  let ?K3 = "\<lambda>j v1. bind_prog (getitem FIRST y) (\<lambda>v2. ?K4 j v1 v2)"
  let ?K2 = "\<lambda>j. bind_prog (getitem FIRST x) (\<lambda>v1. ?K3 j v1)"
  let ?K1 = "\<lambda>r s0. bind_prog (L_find k e r s0) (\<lambda>j. ?K2 j)"
  let ?K0 = "\<lambda>r s0. bind_prog (setFlag r e) (\<lambda>_. ?K1 r s0)"
  from assms(2) have "bind_prog (getitem FIRST x) (\<lambda>r.
     bind_prog (getitem FIRST y) (\<lambda>s0.
       if r = s0 then return () else ?K0 r s0)) s = (Return (), s')"
    by (simp add: L_def)
  then obtain r t0 where r: "getitem FIRST x s = (Return r, t0)"
    and 1: "bind_prog (getitem FIRST y) (\<lambda>s0.
       if r = s0 then return () else ?K0 r s0) t0 = (Return (), s')"
    by (rule bind_ReturnE)
  from getitem_same[OF r] have t0: "t0 = s" .
  from 1 obtain s0 t0' where s0: "getitem FIRST y t0 = (Return s0, t0')"
    and 2: "(if r = s0 then return () else ?K0 r s0) t0' = (Return (), s')"
    by (rule bind_ReturnE)
  from getitem_same[OF s0] t0 have t0': "t0' = s" by simp
  from r s0 t0 assms(3) have ne: "r \<noteq> s0" by auto
  with 2 t0' have "?K0 r s0 s = (Return (), s')" by simp
  then obtain u1 t1 where a: "setFlag r e s = (Return u1, t1)"
    and 4: "?K1 r s0 t1 = (Return (), s')"
    by (rule bind_ReturnE)
  from 4 obtain j t2 where b: "L_find k e r s0 t1 = (Return j, t2)"
    and 5: "?K2 j t2 = (Return (), s')"
    by (rule bind_ReturnE)
  from a have f1: "FIRST t1 = FIRST s" unfolding setFlag_def by (rule setLabel_FIRST)
  with assms(1) have "\<forall>f\<in>set (FIRST t1). 0 \<le> f" by simp
  from L_find_flag[OF this b] f1 have f2: "FIRST t2 = FIRST s" and fl: "flag_on e j t2"
    by simp_all
  from 5 obtain v1 t2a where c: "getitem FIRST x t2 = (Return v1, t2a)"
    and 6: "?K3 j v1 t2a = (Return (), s')"
    by (rule bind_ReturnE)
  from getitem_same[OF c] have t2a: "t2a = t2" .
  from 6 obtain v2 t2b where d: "getitem FIRST y t2a = (Return v2, t2b)"
    and 7: "?K4 j v1 v2 t2b = (Return (), s')"
    by (rule bind_ReturnE)
  from getitem_same[OF d] t2a have t2b: "t2b = t2" by simp
  from 7 obtain u3 t3 where e: "for_each [v1, v2] (L_label k e j) t2b = (Return u3, t3)"
    and f: "?L5 j t3 = (Return (), s')"
    by (rule bind_ReturnE)
  from c r t0 f2 have v1: "v1 = r" by (auto simp: getitem_Return)
  from d s0 t0 t2a f2 have v2: "v2 = s0" by (auto simp: getitem_Return)
  from getitem_in_set[OF c] getitem_in_set[OF d] t2a fl have v0: "0 \<le> v1" "0 \<le> v2"
    by (simp_all add: flag_on_def)
  from e t2b obtain t where e1: "L_label k e j v1 t2 = (Return (), t)"
    and e2: "L_label k e j v2 t = (Return (), t3)"
    by (auto simp: bind_Return return_Return)
  from L_label_flag[OF fl v0(1) e1] have g1: "flag_on e j t"
    and h1: "v1 \<noteq> j \<longrightarrow> j \<in> set (FIRST t)" by simp_all
  from L_label_flag[OF g1 v0(2) e2] have g2: "flag_on e j t3"
    and h2: "v2 \<noteq> j \<or> j \<in> set (FIRST t) \<longrightarrow> j \<in> set (FIRST t3)" by simp_all
  from ne v1 v2 h1 h2 have "j \<in> set (FIRST t3)" by auto
  with g2 L5_flag[OF _ f] have "flag_on e j s' \<and> j \<in> set (FIRST s')" by simp
  then show ?thesis by (auto simp: flag_on_def)
qed

lemma before_L_facts:
  "FIRST before_L = [0, 0, 1, 0, 3, 0] \<and>
   L 10 2 4 14 before_L = (Return (), snd (L 10 2 4 14 before_L)) \<and>
   fst (getitem FIRST 2 before_L) \<noteq> fst (getitem FIRST 4 before_L) \<and>
   FIRST (snd (L 10 2 4 14 before_L)) = [0, 0, 1, 1, 1, 0]"
  by code_simp

theorem flag_stays_on_join_witness:
  "FIRST before_L = [0, 0, 1, 0, 3, 0] \<and>
   L 10 2 4 14 before_L = (Return (), snd (L 10 2 4 14 before_L)) \<and>
   fst (getitem FIRST 2 before_L) \<noteq> fst (getitem FIRST 4 before_L) \<and>
   (\<exists>j. j \<in> set (FIRST (snd (L 10 2 4 14 before_L))) \<and>
      0 \<le> j \<and> nat j < length (LABEL (snd (L 10 2 4 14 before_L))) \<and>
      LABEL (snd (L 10 2 4 14 before_L)) ! nat j = - 14)"
proof -
  from before_L_facts have "\<forall>f\<in>set (FIRST before_L). 0 \<le> f" by simp
  from flag_stays_on_join[OF this, of 10 2 4 14 "snd (L 10 2 4 14 before_L)"] before_L_facts
  show ?thesis by blast
qed

end
